theory Spec2Isabelle
  imports Complex_Main "HOL-Library.Word"
begin

unbundle bit_operations_syntax

section \<open>Bytes, strings and errors\<close>

text \<open>
  A Go \<^verbatim>\<open>byte\<close> is an 8-bit word, a \<^verbatim>\<open>[]byte\<close> and a \<^verbatim>\<open>string\<close> are byte
  sequences, a \<^verbatim>\<open>rune\<close> is a 32-bit word. \<open>B\<close> turns a literal into its bytes.
\<close>

type_synonym byte = "8 word"
type_synonym bytes = "byte list"
type_synonym rune = "32 word"

definition B :: "string \<Rightarrow> bytes" where
  "B s = map of_char s"

text \<open>
  Errors are values. \<open>Errorf\<close> is an error built by \<^verbatim>\<open>fmt.Errorf\<close>, holding the
  formatted message; the others are the errors of the standard library that reach the
  Reader: \<^verbatim>\<open>io.EOF\<close>, the tokenizer's \<^verbatim>\<open>*json.SyntaxError\<close> (message, offset), and
  \<^verbatim>\<open>*strconv.NumError\<close> (function, input, and whether the wrapped error is
  \<^verbatim>\<open>strconv.ErrSyntax\<close> or \<^verbatim>\<open>strconv.ErrRange\<close>, or a bit size error), and
  \<^verbatim>\<open>base64.CorruptInputError\<close> (the offset of the bad byte).
\<close>

datatype numerr = ErrSyntax | ErrRange | ErrBitSize

datatype error =
    Errorf bytes
  | EOF
  | SyntaxError bytes nat
  | NumError bytes bytes numerr
  | CorruptInputError nat

text \<open>A run-time panic ends the call: it is the left summand of a result.\<close>

datatype panic = Panic bytes

section \<open>The Builder\<close>

datatype builderState = builderInit | builderObj | builderKey | builderValue

record Builder =
  Buffer :: bytes
  Err :: "error option"
  Indent :: bytes
  KeyTerm :: "bytes option"
  state :: builderState
  scratch :: bytes
  nestdepth :: int

text \<open>The zero value \<^verbatim>\<open>var b Builder\<close>.\<close>

definition newBuilder :: Builder where
  "newBuilder = \<lparr>Buffer = [], Err = None, Indent = [], KeyTerm = None,
     state = builderInit, scratch = [], nestdepth = 0\<rparr>"

definition setError :: "Builder \<Rightarrow> error \<Rightarrow> Builder" where
  "setError e err = (if Err e = None then e\<lparr>Err := Some err\<rparr> else e)"

definition WriteByte :: "Builder \<Rightarrow> byte \<Rightarrow> Builder" where
  "WriteByte e c = e\<lparr>Buffer := Buffer e @ [c]\<rparr>"

definition Write :: "Builder \<Rightarrow> bytes \<Rightarrow> Builder" where
  "Write e p = e\<lparr>Buffer := Buffer e @ p\<rparr>"

text \<open>The loop of \<^verbatim>\<open>writeNewLine\<close> runs \<open>nestdepth\<close> times, and not at all when the
  depth is zero or negative.\<close>

definition writeNewLine :: "Builder \<Rightarrow> Builder" where
  "writeNewLine e =
     Write (WriteByte e 0x0A) (concat (replicate (nat (nestdepth e)) (Indent e)))"

definition newLine :: "Builder \<Rightarrow> Builder" where
  "newLine e = (if nestdepth e > 0 \<and> length (Indent e) > 0 then writeNewLine e else e)"

definition startChunk :: "Builder \<Rightarrow> builderState \<Rightarrow> Builder" where
  "startChunk e nextstate =
     (let e1 =
        (case state e of
           builderValue \<Rightarrow> newLine (WriteByte e 0x2C)
         | builderObj \<Rightarrow> (if length (Indent e) > 0 then writeNewLine e else e)
         | builderInit \<Rightarrow>
             (if KeyTerm e = None then
                (if length (Indent e) > 0 then e\<lparr>KeyTerm := Some [0x3A, 0x20]\<rparr>
                 else e\<lparr>KeyTerm := Some [0x3A]\<rparr>)
              else e)
         | builderKey \<Rightarrow> e)
      in e1\<lparr>state := nextstate\<rparr>)"

definition Reset :: "Builder \<Rightarrow> Builder" where
  "Reset e = e\<lparr>Buffer := [], Err := None, state := builderInit, nestdepth := 0\<rparr>"

subsection \<open>\<^verbatim>\<open>utf8.DecodeRune\<close>\<close>

text \<open>
  The standard library's decoder of one UTF-8 sequence, which \<^verbatim>\<open>WriteJsonString\<close>
  calls on the rest of the string: the rune and the number of bytes it takes, and
  \<open>(RuneError, 1)\<close> for a byte that starts no well-formed sequence. \<open>utf8_first\<close> is
  the table \<^verbatim>\<open>first\<close> (the size of the sequence and the range accepted for its second
  byte), \<open>None\<close> standing for the entry \<^verbatim>\<open>xx\<close> of an invalid first byte. The payload
  bits of the bytes, which the library takes out with masks and puts together with
  shifts, are written here as differences and multiples: where the payload is used the
  byte is known to lie in its range, so that masking off its top bits subtracts them.
\<close>

definition RuneError :: rune where
  "RuneError = 0xFFFD"

definition utf8_first :: "byte \<Rightarrow> (nat \<times> byte \<times> byte) option" where
  "utf8_first p0 =
     (if p0 < 0xC2 then None
      else if p0 \<le> 0xDF then Some (2, 0x80, 0xBF)
      else if p0 = 0xE0 then Some (3, 0xA0, 0xBF)
      else if p0 \<le> 0xEC then Some (3, 0x80, 0xBF)
      else if p0 = 0xED then Some (3, 0x80, 0x9F)
      else if p0 \<le> 0xEF then Some (3, 0x80, 0xBF)
      else if p0 = 0xF0 then Some (4, 0x90, 0xBF)
      else if p0 \<le> 0xF3 then Some (4, 0x80, 0xBF)
      else if p0 = 0xF4 then Some (4, 0x80, 0x8F)
      else None)"

definition DecodeRune :: "bytes \<Rightarrow> rune \<times> nat" where
  "DecodeRune p =
     (if length p < 1 then (RuneError, 0)
      else let p0 = p ! 0 in
        if p0 < 0x80 then (ucast p0, 1)
        else case utf8_first p0 of
          None \<Rightarrow> (RuneError, 1)
        | Some (sz, lo, hi) \<Rightarrow>
            if length p < sz then (RuneError, 1)
            else let b1 = p ! 1 in
              if b1 < lo \<or> hi < b1 then (RuneError, 1)
              else if sz \<le> 2 then
                (of_nat ((unat p0 - 0xC0) * 64 + (unat b1 - 0x80)), 2)
              else let b2 = p ! 2 in
                if b2 < 0x80 \<or> 0xBF < b2 then (RuneError, 1)
                else if sz \<le> 3 then
                  (of_nat ((unat p0 - 0xE0) * 4096 + (unat b1 - 0x80) * 64 + (unat b2 - 0x80)), 3)
                else let b3 = p ! 3 in
                  if b3 < 0x80 \<or> 0xBF < b3 then (RuneError, 1)
                  else
                    (of_nat ((unat p0 - 0xF0) * 262144 + (unat b1 - 0x80) * 4096
                             + (unat b2 - 0x80) * 64 + (unat b3 - 0x80)), 4))"

subsection \<open>\<^verbatim>\<open>WriteJsonString\<close>\<close>

text \<open>\<^verbatim>\<open>jsonSafeSet\<close>: every ASCII byte from the space on, but the double quote and
  the backslash.\<close>

definition jsonSafeSet :: "byte \<Rightarrow> bool" where
  "jsonSafeSet b = (0x20 \<le> b \<and> b < 0x80 \<and> b \<noteq> 0x22 \<and> b \<noteq> 0x5C)"

definition hexdigits :: bytes where
  "hexdigits = B ''0123456789abcdef''"

text \<open>
  The loop of \<^verbatim>\<open>WriteJsonString\<close>, with its two indices: \<open>start\<close> is where the run
  of bytes not yet written begins, \<open>i\<close> the byte looked at. The result is the Builder
  and the final \<open>start\<close>.
\<close>

function WriteJsonString_loop :: "bytes \<Rightarrow> nat \<Rightarrow> nat \<Rightarrow> Builder \<Rightarrow> Builder \<times> nat" where
  "WriteJsonString_loop s start i e =
     (if i < length s then
        (let b = s ! i in
         if b < 0x80 then
           (if jsonSafeSet b then WriteJsonString_loop s start (i + 1) e
            else
              let e1 = (if start < i then Write e (take (i - start) (drop start s)) else e);
                  e2 = WriteByte e1 0x5C;
                  e3 =
                    (if b = 0x5C \<or> b = 0x22 then WriteByte e2 b
                     else if b = 0x0A then WriteByte e2 0x6E
                     else if b = 0x0D then WriteByte e2 0x72
                     else if b = 0x09 then WriteByte e2 0x74
                     else
                       WriteByte
                         (WriteByte (Write e2 (B ''u00'')) (hexdigits ! unat (drop_bit 4 b)))
                         (hexdigits ! unat (b AND 0xF)))
              in WriteJsonString_loop s (i + 1) (i + 1) e3)
         else
           (case DecodeRune (drop i s) of (c, n) \<Rightarrow>
              if c = RuneError \<and> n = 1 then
                (let e1 = (if start < i then Write e (take (i - start) (drop start s)) else e);
                     e2 = Write e1 (0x5C # B ''ufffd'')
                 in WriteJsonString_loop s (i + n) (i + n) e2)
              else if c = 0x2028 \<or> c = 0x2029 then
                (let e1 = (if start < i then Write e (take (i - start) (drop start s)) else e);
                     e2 = Write e1 (0x5C # B ''u202'');
                     e3 = WriteByte e2 (hexdigits ! unat (c AND 0xF))
                 in WriteJsonString_loop s (i + n) (i + n) e3)
              else WriteJsonString_loop s start (i + n) e))
      else (e, start))"
  by pat_completeness auto

lemma DecodeRune_size_pos: "p \<noteq> [] \<Longrightarrow> 0 < snd (DecodeRune p)"
  by (simp add: DecodeRune_def Let_def split: option.splits prod.splits)

lemma DecodeRune_advances:
  assumes "i < length s" and "(c, n) = DecodeRune (drop i s)"
  shows "length s - (i + n) < length s - i"
proof -
  from assms(1) have "drop i s \<noteq> []" by simp
  then have "0 < snd (DecodeRune (drop i s))" by (rule DecodeRune_size_pos)
  with assms(2) have "0 < n" by (metis snd_conv)
  with assms(1) show ?thesis by arith
qed

termination WriteJsonString_loop
  by (relation "measure (\<lambda>(s, start, i, e). length s - i)")
     (auto intro: DecodeRune_advances)

declare WriteJsonString_loop.simps [simp del]

definition WriteJsonString :: "Builder \<Rightarrow> bytes \<Rightarrow> Builder" where
  "WriteJsonString e s =
     (case WriteJsonString_loop s 0 0 (WriteByte e 0x22) of (e1, start) \<Rightarrow>
        WriteByte (if start < length s then Write e1 (drop start s) else e1) 0x22)"

subsection \<open>Keys and containers\<close>

text \<open>\<^verbatim>\<open>e.Write(e.KeyTerm)\<close> writes nothing while \<open>KeyTerm\<close> is nil.\<close>

definition KeyBytes :: "Builder \<Rightarrow> bytes \<Rightarrow> Builder" where
  "KeyBytes e k =
     (let e1 = WriteJsonString (startChunk e builderKey) k
      in Write e1 (case KeyTerm e1 of None \<Rightarrow> [] | Some t \<Rightarrow> t))"

definition Key :: "Builder \<Rightarrow> bytes \<Rightarrow> Builder" where
  "Key e k = KeyBytes e k"

definition RawKey :: "Builder \<Rightarrow> bytes \<Rightarrow> Builder" where
  "RawKey e k =
     (let e1 = Write (startChunk e builderKey) k
      in Write e1 (case KeyTerm e1 of None \<Rightarrow> [] | Some t \<Rightarrow> t))"

definition Start :: "Builder \<Rightarrow> byte \<Rightarrow> Builder" where
  "Start e kind =
     (let e1 = WriteByte (startChunk e builderObj) kind
      in e1\<lparr>nestdepth := nestdepth e1 + 1\<rparr>)"

definition End :: "Builder \<Rightarrow> byte \<Rightarrow> Builder" where
  "End e kind =
     (let e1 = e\<lparr>nestdepth := nestdepth e - 1\<rparr>;
          e2 =
            (if state e1 = builderKey then e1\<lparr>Err := Some (Errorf (B ''key without value''))\<rparr>
             else if state e1 \<noteq> builderObj \<and> length (Indent e1) > 0 then writeNewLine e1
             else e1);
          e3 = WriteByte e2 kind
      in e3\<lparr>state := builderValue\<rparr>)"

definition StartObject :: "Builder \<Rightarrow> Builder" where
  "StartObject e = Start e 0x7B"

definition EndObject :: "Builder \<Rightarrow> Builder" where
  "EndObject e = End e 0x7D"

definition StartArray :: "Builder \<Rightarrow> Builder" where
  "StartArray e = Start e 0x5B"

definition EndArray :: "Builder \<Rightarrow> Builder" where
  "EndArray e = End e 0x5D"

definition InObject :: "Builder \<Rightarrow> bool" where
  "InObject e = (nestdepth e > 0 \<and> state e \<noteq> builderKey)"

subsection \<open>Values\<close>

definition Raw :: "Builder \<Rightarrow> bytes \<Rightarrow> Builder" where
  "Raw e b = Write (startChunk e builderValue) b"

definition Null :: "Builder \<Rightarrow> Builder" where
  "Null e = Raw e (B ''null'')"

definition Bool :: "Builder \<Rightarrow> bool \<Rightarrow> Builder" where
  "Bool e v = (if v then Raw e (B ''true'') else Raw e (B ''false''))"

definition Str :: "Builder \<Rightarrow> bytes \<Rightarrow> Builder" where
  "Str e s = WriteJsonString (startChunk e builderValue) s"

definition StrBytes :: "Builder \<Rightarrow> bytes \<Rightarrow> Builder" where
  "StrBytes e s = WriteJsonString (startChunk e builderValue) s"

text \<open>
  Decimal formatting, as \<^verbatim>\<open>strconv.FormatInt(v, 10)\<close>, \<^verbatim>\<open>strconv.FormatUint(v, 10)\<close>
  and the verb \<^verbatim>\<open>%d\<close> of \<^verbatim>\<open>fmt\<close> do it: the digits of the magnitude, most significant
  first, after a minus sign for a negative \<^verbatim>\<open>int64\<close>.
\<close>

fun decimal :: "nat \<Rightarrow> bytes" where
  "decimal n = (if n < 10 then [0x30 + of_nat n] else decimal (n div 10) @ [0x30 + of_nat (n mod 10)])"

declare decimal.simps [simp del]

definition FormatUint :: "64 word \<Rightarrow> bytes" where
  "FormatUint v = decimal (unat v)"

definition FormatInt :: "64 word \<Rightarrow> bytes" where
  "FormatInt v = (if sint v < 0 then 0x2D # decimal (nat (- sint v)) else decimal (nat (sint v)))"

text \<open>\<^verbatim>\<open>Builder.Int\<close> takes an \<^verbatim>\<open>int64\<close>, \<^verbatim>\<open>Builder.Uint\<close> a \<^verbatim>\<open>uint64\<close>: both
  are 64-bit words, read as signed by the one and as unsigned by the other.\<close>

definition Builder_Int :: "Builder \<Rightarrow> 64 word \<Rightarrow> int \<Rightarrow> Builder" where
  "Builder_Int e v bitsize =
     (let e1 = startChunk e builderValue
      in if bitsize > 32 then WriteJsonString e1 (FormatInt v) else Write e1 (FormatInt v))"

definition Builder_Uint :: "Builder \<Rightarrow> 64 word \<Rightarrow> int \<Rightarrow> Builder" where
  "Builder_Uint e v bitsize =
     (let e1 = startChunk e builderValue
      in if bitsize > 32 then WriteJsonString e1 (FormatUint v) else Write e1 (FormatUint v))"


subsection \<open>Floating point numbers\<close>

text \<open>
  A \<^verbatim>\<open>float64\<close> is its IEEE 754 bit pattern (\<^verbatim>\<open>math.Float64bits\<close>), a \<^verbatim>\<open>float32\<close>
  likewise. The fields of a pattern are taken out as \<^verbatim>\<open>strconv\<close> does it: the sign is
  the top bit, the exponent the next 11 (or 8) bits, the mantissa the low 52 (or 23)
  bits. A pattern is a NaN when its exponent field is all ones and its mantissa is not
  zero. Of two patterns that are not NaN, the order of the numbers is the order of the
  sign-and-magnitude integers the patterns spell (\<open>f64_key\<close>); both zeros have the key
  0. Every comparison with a NaN is false, but \<^verbatim>\<open>!=\<close>, which is true.
\<close>

type_synonym float64 = "64 word"
type_synonym float32 = "32 word"

definition f64_sign :: "float64 \<Rightarrow> bool" where
  "f64_sign x = bit x 63"

definition f64_exp :: "float64 \<Rightarrow> nat" where
  "f64_exp x = unat (drop_bit 52 x AND 0x7FF)"

definition f64_mant :: "float64 \<Rightarrow> nat" where
  "f64_mant x = unat (x AND 0xFFFFFFFFFFFFF)"

definition f64_isNaN :: "float64 \<Rightarrow> bool" where
  "f64_isNaN x = (f64_exp x = 0x7FF \<and> f64_mant x \<noteq> 0)"

definition f64_key :: "float64 \<Rightarrow> int" where
  "f64_key x =
     (let mag = int (f64_exp x * 2 ^ 52 + f64_mant x) in if f64_sign x then - mag else mag)"

definition f64_lt :: "float64 \<Rightarrow> float64 \<Rightarrow> bool" where
  "f64_lt a b = (\<not> f64_isNaN a \<and> \<not> f64_isNaN b \<and> f64_key a < f64_key b)"

definition f64_ge :: "float64 \<Rightarrow> float64 \<Rightarrow> bool" where
  "f64_ge a b = (\<not> f64_isNaN a \<and> \<not> f64_isNaN b \<and> f64_key a \<ge> f64_key b)"

definition f64_eq :: "float64 \<Rightarrow> float64 \<Rightarrow> bool" where
  "f64_eq a b = (\<not> f64_isNaN a \<and> \<not> f64_isNaN b \<and> f64_key a = f64_key b)"

definition f32_sign :: "float32 \<Rightarrow> bool" where
  "f32_sign x = bit x 31"

definition f32_exp :: "float32 \<Rightarrow> nat" where
  "f32_exp x = unat (drop_bit 23 x AND 0xFF)"

definition f32_mant :: "float32 \<Rightarrow> nat" where
  "f32_mant x = unat (x AND 0x7FFFFF)"

definition f32_isNaN :: "float32 \<Rightarrow> bool" where
  "f32_isNaN x = (f32_exp x = 0xFF \<and> f32_mant x \<noteq> 0)"

definition f32_key :: "float32 \<Rightarrow> int" where
  "f32_key x =
     (let mag = int (f32_exp x * 2 ^ 23 + f32_mant x) in if f32_sign x then - mag else mag)"

definition f32_lt :: "float32 \<Rightarrow> float32 \<Rightarrow> bool" where
  "f32_lt a b = (\<not> f32_isNaN a \<and> \<not> f32_isNaN b \<and> f32_key a < f32_key b)"

definition f32_ge :: "float32 \<Rightarrow> float32 \<Rightarrow> bool" where
  "f32_ge a b = (\<not> f32_isNaN a \<and> \<not> f32_isNaN b \<and> f32_key a \<ge> f32_key b)"

text \<open>The \<^verbatim>\<open>float32\<close> with the given sign, exponent field and mantissa.\<close>

definition f32_make :: "bool \<Rightarrow> nat \<Rightarrow> nat \<Rightarrow> float32" where
  "f32_make s e m = of_nat ((if s then 2 ^ 8 else 0) * 2 ^ 23 + e * 2 ^ 23 + m)"

text \<open>
  The conversion \<^verbatim>\<open>float32(x)\<close> rounds to the nearest \<^verbatim>\<open>float32\<close>, ties to the even
  mantissa. \<open>round_even M k\<close> is \<open>M / 2 ^ k\<close> so rounded. A binary64 with exponent
  field \<open>e > 0\<close> and mantissa \<open>m\<close> is \<open>(2 ^ 52 + m) * 2 ^ (e - 1075)\<close>; from \<open>e = 897\<close> on
  it lies in the normal range of binary32, where the rounded 24-bit mantissa, added to
  the exponent field less one, carries into the exponent by itself, and a result
  beyond the largest \<^verbatim>\<open>float32\<close> is an infinity. Below, it is rounded to a multiple of
  \<open>2 ^ -149\<close>, and a binary64 with exponent field 0 is rounded to zero. A NaN stays a
  NaN (made quiet, with the top of its payload), an infinity an infinity.
\<close>

definition round_even :: "nat \<Rightarrow> nat \<Rightarrow> nat" where
  "round_even M k =
     (let q = M div 2 ^ k; r = M mod 2 ^ k; half = 2 ^ (k - 1)
      in if r > half \<or> (r = half \<and> odd q) then q + 1 else q)"

definition f64_to_f32 :: "float64 \<Rightarrow> float32" where
  "f64_to_f32 x =
     (let s = f64_sign x; e = f64_exp x; m = f64_mant x
      in if e = 0x7FF then
           (if m = 0 then f32_make s 0xFF 0 else f32_make s 0xFF (2 ^ 22 + m div 2 ^ 29 mod 2 ^ 22))
         else if e = 0 then f32_make s 0 0
         else
           (let b = (if e \<ge> 897 then (e - 897) * 2 ^ 23 + round_even (2 ^ 52 + m) 29
                     else round_even (2 ^ 52 + m) (29 + (897 - e)))
            in if b \<ge> 0xFF * 2 ^ 23 then f32_make s 0xFF 0
               else f32_make s (b div 2 ^ 23) (b mod 2 ^ 23)))"

text \<open>\<^verbatim>\<open>math.IsInf\<close>, \<^verbatim>\<open>math.IsNaN\<close> and \<^verbatim>\<open>math.Abs\<close>, as the package \<^verbatim>\<open>math\<close> writes
  them.\<close>

definition MaxFloat64 :: float64 where
  "MaxFloat64 = 0x7FEFFFFFFFFFFFFF"

definition IsInf :: "float64 \<Rightarrow> int \<Rightarrow> bool" where
  "IsInf f sign =
     (sign \<ge> 0 \<and> f64_lt MaxFloat64 f \<or> sign \<le> 0 \<and> f64_lt f (MaxFloat64 OR 0x8000000000000000))"

definition IsNaN :: "float64 \<Rightarrow> bool" where
  "IsNaN f = (\<not> f64_eq f f)"

definition Abs :: "float64 \<Rightarrow> float64" where
  "Abs f = f AND NOT 0x8000000000000000"

text \<open>
  \<^verbatim>\<open>strconv.FormatFloat\<close> and \<^verbatim>\<open>strconv.AppendFloat\<close> with precision \<open>-1\<close>. They
  panic on a bit size other than 32 and 64, look at the value as a \<^verbatim>\<open>float32\<close> when the
  bit size is 32, and write \<^verbatim>\<open>NaN\<close>, \<^verbatim>\<open>+Inf\<close> or \<^verbatim>\<open>-Inf\<close> for a value that is not finite.
  The digits of a finite value (the shortest that read back as the same number, in
  format \<^verbatim>\<open>f\<close>, \<^verbatim>\<open>e\<close> or \<^verbatim>\<open>g\<close>) are computed by the standard library and not by this
  package: they are the parameter \<open>digits\<close> of the model, so that what is proved
  holds whatever they are.
\<close>

type_synonym ftoa = "float64 \<Rightarrow> byte \<Rightarrow> int \<Rightarrow> bytes"

definition genericFtoa :: "ftoa \<Rightarrow> bytes \<Rightarrow> float64 \<Rightarrow> byte \<Rightarrow> int \<Rightarrow> panic + bytes" where
  "genericFtoa digits dst val fmt bitSize =
     (if bitSize = 32 then
        (let bits = f64_to_f32 val
         in if f32_exp bits = 0xFF then
              Inr (dst @ (if f32_mant bits \<noteq> 0 then B ''NaN''
                          else if f32_sign bits then B ''-Inf'' else B ''+Inf''))
            else Inr (dst @ digits val fmt bitSize))
      else if bitSize = 64 then
        (if f64_exp val = 0x7FF then
           Inr (dst @ (if f64_mant val \<noteq> 0 then B ''NaN''
                       else if f64_sign val then B ''-Inf'' else B ''+Inf''))
         else Inr (dst @ digits val fmt bitSize))
      else Inl (Panic (B ''strconv: illegal AppendFloat/FormatFloat bitSize'')))"

definition FormatFloat :: "ftoa \<Rightarrow> float64 \<Rightarrow> byte \<Rightarrow> int \<Rightarrow> panic + bytes" where
  "FormatFloat digits f fmt bitSize = genericFtoa digits [] f fmt bitSize"

definition AppendFloat :: "ftoa \<Rightarrow> bytes \<Rightarrow> float64 \<Rightarrow> byte \<Rightarrow> int \<Rightarrow> panic + bytes" where
  "AppendFloat digits dst f fmt bitSize = genericFtoa digits dst f fmt bitSize"

text \<open>The constants \<^verbatim>\<open>1e-6\<close> and \<^verbatim>\<open>1e21\<close> of \<^verbatim>\<open>Float\<close>, as \<^verbatim>\<open>float64\<close> and as
  \<^verbatim>\<open>float32\<close>: the nearest number of each type.\<close>

definition f64_1e_6 :: float64 where "f64_1e_6 = 0x3EB0C6F7A0B5ED8D"
definition f64_1e21 :: float64 where "f64_1e21 = 0x444B1AE4D6E2EF50"
definition f32_1e_6 :: float32 where "f32_1e_6 = 0x358637BD"
definition f32_1e21 :: float32 where "f32_1e21 = 0x6258D727"

text \<open>The choice between the formats \<^verbatim>\<open>'f'\<close> and \<^verbatim>\<open>'e'\<close> in \<^verbatim>\<open>Float\<close>.\<close>

definition Float_fmt :: "float64 \<Rightarrow> int \<Rightarrow> byte" where
  "Float_fmt f bits =
     (let abs = Abs f
      in if \<not> f64_eq abs 0 then
           (if bits = 64 \<and> (f64_lt abs f64_1e_6 \<or> f64_ge abs f64_1e21) \<or>
               bits = 32 \<and> (f32_lt (f64_to_f32 abs) f32_1e_6 \<or> f32_ge (f64_to_f32 abs) f32_1e21)
            then 0x65 else 0x66)
         else 0x66)"

text \<open>The clean-up of the exponent in \<^verbatim>\<open>Float\<close>: \<^verbatim>\<open>e-09\<close> becomes \<^verbatim>\<open>e-9\<close>.\<close>

definition Float_cleanup :: "bytes \<Rightarrow> bytes" where
  "Float_cleanup b =
     (let n = length b
      in if n \<ge> 4 \<and> b ! (n - 4) = 0x65 \<and> b ! (n - 3) = 0x2D \<and> b ! (n - 2) = 0x30
         then take (n - 1) (b[n - 2 := b ! (n - 1)])
         else b)"

definition Float :: "ftoa \<Rightarrow> Builder \<Rightarrow> float64 \<Rightarrow> int \<Rightarrow> panic + Builder" where
  "Float digits e f bits =
     (let e1 = startChunk e builderValue
      in case (if IsInf f 0 \<or> IsNaN f then
                 (case FormatFloat digits f 0x67 bits of
                    Inl p \<Rightarrow> Inl p
                  | Inr s \<Rightarrow> Inr (setError e1 (Errorf (B ''unsupported float64 value '' @ s))))
               else Inr e1) of
           Inl p \<Rightarrow> Inl p
         | Inr e2 \<Rightarrow>
             (let fmt = Float_fmt f bits
              in case AppendFloat digits [] f fmt bits of
                   Inl p \<Rightarrow> Inl p
                 | Inr b0 \<Rightarrow>
                     (let b = (if fmt = 0x65 then Float_cleanup b0 else b0)
                      in Inr (Write (e2\<lparr>scratch := b\<rparr>) b))))"

subsection \<open>Blobs\<close>

text \<open>\<^verbatim>\<open>base64.RawStdEncoding\<close>: the standard alphabet, no padding.\<close>

definition encodeStd :: bytes where
  "encodeStd = B ''ABCDEFGHIJKLMNOPQRSTUVWXYZabcdefghijklmnopqrstuvwxyz0123456789+/''"

definition EncodedLen :: "nat \<Rightarrow> nat" where
  "EncodedLen n = n div 3 * 4 + (n mod 3 * 8 + 5) div 6"

fun Encode :: "bytes \<Rightarrow> bytes" where
  "Encode (a # b # c # src) =
     [encodeStd ! unat (drop_bit 2 a),
      encodeStd ! unat ((push_bit 4 a OR drop_bit 4 b) AND 0x3F),
      encodeStd ! unat ((push_bit 2 b OR drop_bit 6 c) AND 0x3F),
      encodeStd ! unat (c AND 0x3F)] @ Encode src"
| "Encode [a, b] =
     [encodeStd ! unat (drop_bit 2 a),
      encodeStd ! unat ((push_bit 4 a OR drop_bit 4 b) AND 0x3F),
      encodeStd ! unat (push_bit 2 b AND 0x3F)]"
| "Encode [a] =
     [encodeStd ! unat (drop_bit 2 a),
      encodeStd ! unat (push_bit 4 a AND 0x3F)]"
| "Encode [] = []"

text \<open>
  \<open>Blob\<close> encodes into \<open>scratch\<close> when the encoding is shorter than 512 bytes, and into
  a fresh buffer otherwise. The capacity of \<open>scratch\<close> is taken to be its length: a
  shorter \<open>scratch\<close> is replaced, a longer one is overwritten at its beginning.
\<close>

definition Blob :: "Builder \<Rightarrow> bytes \<Rightarrow> Builder" where
  "Blob e data =
     (let e1 = startChunk e builderValue;
          b64len = EncodedLen (length data);
          buf = Encode data;
          e2 =
            (if b64len < 512 then
               (if length (scratch e1) < b64len then e1\<lparr>scratch := buf\<rparr>
                else e1\<lparr>scratch := buf @ drop b64len (scratch e1)\<rparr>)
             else e1)
      in WriteJsonString e2 buf)"


section \<open>The Reader\<close>

subsection \<open>The tokenizer\<close>

text \<open>
  The Reader drives a \<^verbatim>\<open>*json.Decoder\<close> of the standard library through three of its
  methods: \<^verbatim>\<open>More\<close>, \<^verbatim>\<open>Token\<close> and \<^verbatim>\<open>InputOffset\<close>. The decoder is not part of this
  package, so the model takes its answers as given: a decoder is the list of the
  answers it still has to give, each one saying what \<^verbatim>\<open>More\<close> reports before the
  token is pulled, what \<^verbatim>\<open>Token\<close> returns (a token or an error), and the input offset
  after it. When the list is used up the input is at its end: \<^verbatim>\<open>More\<close> is false and
  \<^verbatim>\<open>Token\<close> returns \<^verbatim>\<open>io.EOF\<close>.

  A \<^verbatim>\<open>json.Token\<close> is a delimiter, a \<^verbatim>\<open>bool\<close>, a \<^verbatim>\<open>float64\<close>, a \<^verbatim>\<open>string\<close> or \<^verbatim>\<open>nil\<close>
  (the decoder is never asked for \<^verbatim>\<open>json.Number\<close>).
\<close>

datatype Token = Delim rune | TBool bool | TFloat64 float64 | TString bytes | TNil

record answer =
  ans_more :: bool
  ans_token :: "error + Token"
  ans_offset :: nat

record Decoder =
  pending :: "answer list"
  offset :: nat

definition Decoder_More :: "Decoder \<Rightarrow> bool" where
  "Decoder_More dc = (case pending dc of [] \<Rightarrow> False | a # _ \<Rightarrow> ans_more a)"

definition Decoder_Token :: "Decoder \<Rightarrow> (Token \<times> error option) \<times> Decoder" where
  "Decoder_Token dc =
     (case pending dc of
        [] \<Rightarrow> ((TNil, Some EOF), dc)
      | a # as \<Rightarrow>
          ((case ans_token a of Inl err \<Rightarrow> (TNil, Some err) | Inr t \<Rightarrow> (t, None)),
           dc\<lparr>pending := as, offset := ans_offset a\<rparr>))"

definition InputOffset :: "Decoder \<Rightarrow> nat" where
  "InputOffset dc = offset dc"

subsection \<open>\<^verbatim>\<open>strconv.ParseUint\<close> and \<^verbatim>\<open>strconv.ParseInt\<close> in base 10\<close>

text \<open>
  The loop of \<^verbatim>\<open>ParseUint\<close> over the bytes, for the base 10 the Reader asks for: a
  byte that is no digit is a syntax error; a number beyond \<open>maxVal\<close> is a range
  error, returned with \<open>maxVal\<close> as soon as it is seen. The additions are those of
  \<^verbatim>\<open>uint64\<close>.
\<close>

fun ParseUint_loop :: "bytes \<Rightarrow> nat \<Rightarrow> nat \<Rightarrow> nat \<times> numerr option" where
  "ParseUint_loop [] n maxVal = (n, None)"
| "ParseUint_loop (c # cs) n maxVal =
     (if 0x30 \<le> c \<and> c \<le> 0x39 then
        (let d = unat (c - 0x30)
         in if n \<ge> 18446744073709551615 div 10 + 1 then (maxVal, Some ErrRange)
            else
              (let n' = n * 10; n1 = (n' + d) mod 2 ^ 64
               in if n1 < n' \<or> n1 > maxVal then (maxVal, Some ErrRange)
                  else ParseUint_loop cs n1 maxVal))
      else (0, Some ErrSyntax))"

definition ParseUint :: "bytes \<Rightarrow> int \<Rightarrow> 64 word \<times> error option" where
  "ParseUint s bitSize =
     (if s = [] then (0, Some (NumError (B ''ParseUint'') s ErrSyntax))
      else if bitSize < 0 \<or> bitSize > 64 then (0, Some (NumError (B ''ParseUint'') s ErrBitSize))
      else
        (let bs = (if bitSize = 0 then 64 else nat bitSize)
         in case ParseUint_loop s 0 (2 ^ bs - 1) of
              (n, None) \<Rightarrow> (of_nat n, None)
            | (n, Some k) \<Rightarrow> (of_nat n, Some (NumError (B ''ParseUint'') s k))))"

definition ParseInt :: "bytes \<Rightarrow> int \<Rightarrow> 64 word \<times> error option" where
  "ParseInt s0 bitSize =
     (if s0 = [] then (0, Some (NumError (B ''ParseInt'') s0 ErrSyntax))
      else
        (let neg = (s0 ! 0 = 0x2D);
             s = (if s0 ! 0 = 0x2B \<or> s0 ! 0 = 0x2D then tl s0 else s0)
         in case ParseUint s bitSize of
              (un, Some (NumError f x ErrSyntax)) \<Rightarrow> (0, Some (NumError (B ''ParseInt'') s0 ErrSyntax))
            | (un, Some (NumError f x ErrBitSize)) \<Rightarrow> (0, Some (NumError (B ''ParseInt'') s0 ErrBitSize))
            | (un, r) \<Rightarrow>
                (let bs = (if bitSize = 0 then 64 else nat bitSize);
                     cutoff = (2 :: nat) ^ (bs - 1)
                 in if \<not> neg \<and> unat un \<ge> cutoff then
                      (of_nat (cutoff - 1), Some (NumError (B ''ParseInt'') s0 ErrRange))
                    else if neg \<and> unat un > cutoff then
                      (- of_nat cutoff, Some (NumError (B ''ParseInt'') s0 ErrRange))
                    else (if neg then - un else un, None))))"

subsection \<open>\<^verbatim>\<open>base64.RawStdEncoding.DecodeString\<close>\<close>

text \<open>
  The decoder reads quanta of four characters, skipping line breaks; at the end of the
  input a quantum of two or three characters is completed with zeros and gives one or
  two bytes, and a quantum of one character is an error, as is a character outside the
  alphabet. It returns the bytes of the quanta decoded before the error. \<open>si\<close> is the
  offset of the next character, \<open>dbuf\<close> the values of the current quantum read so far.
\<close>

definition decodeMap :: "byte \<Rightarrow> byte" where
  "decodeMap c =
     (if 0x41 \<le> c \<and> c \<le> 0x5A then c - 0x41
      else if 0x61 \<le> c \<and> c \<le> 0x7A then c - 0x61 + 26
      else if 0x30 \<le> c \<and> c \<le> 0x39 then c - 0x30 + 52
      else if c = 0x2B then 62
      else if c = 0x2F then 63
      else 0xFF)"

definition quantum :: "bytes \<Rightarrow> bytes" where
  "quantum dbuf =
     (let v = (\<lambda>j. if j < length dbuf then ucast (dbuf ! j) else 0 :: 32 word);
          val = push_bit 18 (v 0) OR push_bit 12 (v 1) OR push_bit 6 (v 2) OR v 3
      in take (length dbuf - 1) [ucast (drop_bit 16 val), ucast (drop_bit 8 val), ucast val])"

fun Decode :: "bytes \<Rightarrow> nat \<Rightarrow> bytes \<Rightarrow> bytes \<times> error option" where
  "Decode [] si dbuf =
     (if length dbuf = 0 then ([], None)
      else if length dbuf = 1 then ([], Some (CorruptInputError (si - 1)))
      else (quantum dbuf, None))"
| "Decode (c # src) si dbuf =
     (let out = decodeMap c
      in if out \<noteq> 0xFF then
           (if length dbuf = 3 then
              (case Decode src (si + 1) [] of (bs, err) \<Rightarrow> (quantum (dbuf @ [out]) @ bs, err))
            else Decode src (si + 1) (dbuf @ [out]))
         else if c = 0x0A \<or> c = 0x0D then Decode src (si + 1) dbuf
         else ([], Some (CorruptInputError si)))"

definition DecodeString :: "bytes \<Rightarrow> bytes \<times> error option" where
  "DecodeString s = Decode s 0 []"

subsection \<open>Conversions of a \<^verbatim>\<open>float64\<close> to an integer\<close>

text \<open>
  \<^verbatim>\<open>int64(v)\<close> and \<^verbatim>\<open>uint64(v)\<close> discard the fraction. \<open>f64_trunc\<close> is the integer so
  obtained from a finite pattern. The language leaves the result open when that
  integer does not fit the type; the model returns what the 64-bit x86 instruction
  gives, the pattern \<open>0x8000000000000000\<close>, and for \<^verbatim>\<open>uint64\<close> of a number from \<open>2 ^ 63\<close>
  on the conversion of the number less \<open>2 ^ 63\<close> with the top bit flipped.
\<close>

definition f64_trunc :: "float64 \<Rightarrow> int" where
  "f64_trunc x =
     (let e = f64_exp x;
          m = f64_mant x;
          M = (if e = 0 then m else 2 ^ 52 + m);
          E = (if e = 0 then 1 else e);
          t = (if E \<ge> 1075 then M * 2 ^ (E - 1075) else M div 2 ^ (1075 - E))
      in if f64_sign x then - int t else int t)"

definition f64_to_int64 :: "float64 \<Rightarrow> 64 word" where
  "f64_to_int64 x =
     (if f64_exp x = 0x7FF then 0x8000000000000000
      else
        (let t = f64_trunc x
         in if - (2 ^ 63) \<le> t \<and> t < 2 ^ 63 then of_int t else 0x8000000000000000))"

definition f64_to_uint64 :: "float64 \<Rightarrow> 64 word" where
  "f64_to_uint64 x =
     (if f64_exp x = 0x7FF then 0x8000000000000000
      else
        (let t = f64_trunc x
         in if t < 2 ^ 63 then (if - (2 ^ 63) \<le> t then of_int t else 0x8000000000000000)
            else if t < 2 ^ 64 then of_int t
            else 0))"

subsection \<open>The Reader's state and its errors\<close>

record Reader =
  rd :: Decoder
  rerr :: "error option"
  rtok :: Token
  rdelimstack :: "rune list"
  rdelim :: rune

text \<open>\<^verbatim>\<open>NewReader\<close> wraps the decoder made for the data.\<close>

definition NewReader :: "Decoder \<Rightarrow> Reader" where
  "NewReader dc = \<lparr>rd = dc, rerr = None, rtok = TNil, rdelimstack = [], rdelim = 0\<rparr>"

definition Reader_Reset :: "Reader \<Rightarrow> Decoder \<Rightarrow> Reader" where
  "Reader_Reset c dc = (c\<lparr>rd := dc\<rparr>)\<lparr>rdelimstack := []\<rparr>"

definition Reader_Err :: "Reader \<Rightarrow> error option" where
  "Reader_Err c = rerr c"

text \<open>\<^verbatim>\<open>string(r)\<close> for a rune, which is what \<^verbatim>\<open>fmt.Sprint\<close> prints for a
  \<^verbatim>\<open>json.Delim\<close>: its UTF-8 encoding, and that of U+FFFD for a rune that is no code
  point.\<close>

definition runeString :: "rune \<Rightarrow> bytes" where
  "runeString r =
     (if r < 0x80 then [ucast r]
      else if r < 0x800 then [0xC0 OR ucast (drop_bit 6 r), 0x80 OR (ucast r AND 0x3F)]
      else if 0x10FFFF < r \<or> (0xD800 \<le> r \<and> r \<le> 0xDFFF) then [0xEF, 0xBF, 0xBD]
      else if r < 0x10000 then
        [0xE0 OR ucast (drop_bit 12 r), 0x80 OR (ucast (drop_bit 6 r) AND 0x3F),
         0x80 OR (ucast r AND 0x3F)]
      else
        [0xF0 OR ucast (drop_bit 18 r), 0x80 OR (ucast (drop_bit 12 r) AND 0x3F),
         0x80 OR (ucast (drop_bit 6 r) AND 0x3F), 0x80 OR (ucast r AND 0x3F)])"

text \<open>The verb \<^verbatim>\<open>%T\<close> on a token that is no delimiter.\<close>

definition typeName :: "Token \<Rightarrow> bytes" where
  "typeName t =
     (case t of
        Delim d \<Rightarrow> B ''json.Delim''
      | TBool b \<Rightarrow> B ''bool''
      | TFloat64 f \<Rightarrow> B ''float64''
      | TString s \<Rightarrow> B ''string''
      | TNil \<Rightarrow> B ''<nil>'')"

definition errExpected :: "Reader \<Rightarrow> bytes \<Rightarrow> error" where
  "errExpected c expected =
     (let actual = (case rtok c of Delim d \<Rightarrow> runeString d | t \<Rightarrow> typeName t)
      in Errorf (B ''expected '' @ expected @ B '' but got '' @ actual @ B '' at offset ''
                 @ decimal (InputOffset (rd c))))"

definition Reader_setError :: "Reader \<Rightarrow> error \<Rightarrow> Reader" where
  "Reader_setError c err =
     (if rerr c = None then
        (let err1 = (case err of NumError f x ErrSyntax \<Rightarrow> errExpected c (B ''number'') | _ \<Rightarrow> err)
         in c\<lparr>rerr := Some err1\<rparr>)
      else c)"

definition setErrorf :: "Reader \<Rightarrow> bytes \<Rightarrow> Reader" where
  "setErrorf c msg = (if rerr c = None then c\<lparr>rerr := Some (Errorf msg)\<rparr> else c)"

definition setErrorExpected :: "Reader \<Rightarrow> bytes \<Rightarrow> Reader" where
  "setErrorExpected c expected = Reader_setError c (errExpected c expected)"

definition "next" :: "Reader \<Rightarrow> Token \<times> Reader" where
  "next c =
     (case Decoder_Token (rd c) of ((t, err), dc) \<Rightarrow>
        (let c1 = c\<lparr>rd := dc, rtok := t\<rparr>
         in (t, case err of None \<Rightarrow> c1 | Some e \<Rightarrow> Reader_setError c1 e)))"

subsection \<open>Keys and containers\<close>

definition Reader_Key :: "Reader \<Rightarrow> bytes \<times> Reader" where
  "Reader_Key c =
     (if Decoder_More (rd c) then
        (case next c of (t, c1) \<Rightarrow>
           (case t of TString s \<Rightarrow> (s, c1) | _ \<Rightarrow> ([], setErrorExpected c1 (B ''key''))))
      else ([], c))"

definition pushDelim :: "Reader \<Rightarrow> rune \<Rightarrow> bool \<times> Reader" where
  "pushDelim c d =
     (case next c of (tok, c1) \<Rightarrow>
        if tok \<noteq> Delim d then (False, setErrorExpected c1 (runeString d))
        else (True, c1\<lparr>rdelimstack := rdelimstack c1 @ [rdelim c1], rdelim := d\<rparr>))"

text \<open>
  \<open>popDelim\<close> pulls the closing delimiter. On a mismatch it calls \<open>errExpected\<close>,
  which builds an error, and does nothing with the error built: \<open>built\<close> below is
  that value, and no field of the result depends on it. Popping an empty stack panics.
\<close>

definition popDelim :: "Reader \<Rightarrow> panic + Reader" where
  "popDelim c =
     (case next c of (t, c1) \<Rightarrow>
        (case t of
           Delim d \<Rightarrow>
             (let expect = d - 2;
                  built = (if expect \<noteq> rdelim c1 then Some (errExpected c1 (runeString expect))
                           else None)
              in if rdelimstack c1 = [] then Inl (Panic (B ''index out of range''))
                 else Inr (c1\<lparr>rdelim := last (rdelimstack c1),
                               rdelimstack := butlast (rdelimstack c1)\<rparr>))
         | _ \<Rightarrow> Inr c1))"

definition ObjectStart :: "Reader \<Rightarrow> bool \<times> Reader" where
  "ObjectStart c = pushDelim c 0x7B"

definition ArrayStart :: "Reader \<Rightarrow> bool \<times> Reader" where
  "ArrayStart c = pushDelim c 0x5B"

definition More :: "Reader \<Rightarrow> panic + bool \<times> Reader" where
  "More c =
     (if Decoder_More (rd c) then Inr (True, c)
      else (case popDelim c of Inl p \<Rightarrow> Inl p | Inr c1 \<Rightarrow> Inr (False, c1)))"

subsection \<open>Typed values\<close>

definition Reader_Int :: "Reader \<Rightarrow> int \<Rightarrow> 64 word \<times> Reader" where
  "Reader_Int c bitsize =
     (case next c of (t, c1) \<Rightarrow>
        (case t of
           TFloat64 v \<Rightarrow> (f64_to_int64 v, c1)
         | TString v \<Rightarrow>
             (case ParseInt v bitsize of
                (i, None) \<Rightarrow> (i, c1)
              | (i, Some err) \<Rightarrow> (i, Reader_setError c1 err))
         | _ \<Rightarrow> (0, setErrorExpected c1 (B ''number''))))"

definition Reader_Uint :: "Reader \<Rightarrow> int \<Rightarrow> 64 word \<times> Reader" where
  "Reader_Uint c bitsize =
     (case next c of (t, c1) \<Rightarrow>
        (case t of
           TFloat64 v \<Rightarrow> (f64_to_uint64 v, c1)
         | TString v \<Rightarrow>
             (case ParseUint v bitsize of
                (i, None) \<Rightarrow> (i, c1)
              | (i, Some err) \<Rightarrow> (i, Reader_setError c1 err))
         | _ \<Rightarrow> (0, setErrorExpected c1 (B ''number''))))"

definition Reader_Float :: "Reader \<Rightarrow> int \<Rightarrow> float64 \<times> Reader" where
  "Reader_Float c bitsize =
     (case next c of (t, c1) \<Rightarrow>
        (case t of TFloat64 v \<Rightarrow> (v, c1) | _ \<Rightarrow> (0, setErrorExpected c1 (B ''number''))))"

definition Reader_Bool :: "Reader \<Rightarrow> bool \<times> Reader" where
  "Reader_Bool c =
     (case next c of (t, c1) \<Rightarrow>
        (case t of TBool v \<Rightarrow> (v, c1) | _ \<Rightarrow> (False, setErrorExpected c1 (B ''boolean''))))"

definition Reader_Str :: "Reader \<Rightarrow> bytes \<times> Reader" where
  "Reader_Str c =
     (case next c of (t, c1) \<Rightarrow>
        (case t of TString s \<Rightarrow> (s, c1) | _ \<Rightarrow> ([], setErrorExpected c1 (B ''string''))))"

definition Reader_Blob :: "Reader \<Rightarrow> bytes \<times> Reader" where
  "Reader_Blob c =
     (case Reader_Str c of (s, c1) \<Rightarrow>
        if length s = 0 then ([], c1)
        else
          (case DecodeString s of
             (buf, None) \<Rightarrow> (buf, c1)
           | (buf, Some err) \<Rightarrow>
               (buf,
                setErrorf c1
                  (B ''failed to decode blob: '' @
                   (case err of
                      CorruptInputError n \<Rightarrow> B ''illegal base64 data at input byte '' @ decimal n
                    | _ \<Rightarrow> [])))))"

text \<open>\<open>Discard\<close> drops one token, and refuses a delimiter. The message prints the
  delimiter with the verb \<^verbatim>\<open>%q\<close>, between single quotes.\<close>

definition Discard :: "Reader \<Rightarrow> Reader" where
  "Discard c =
     (case next c of (t, c1) \<Rightarrow>
        (case t of
           Delim d \<Rightarrow>
             Reader_setError c1
               (Errorf (B ''UNIMPLEMENTED json.Reader.Discard object ('' @ [0x27] @ runeString d
                        @ [0x27] @ B '')''))
         | _ \<Rightarrow> c1))"

section \<open>Reading a decimal numeral\<close>

text \<open>
  What a decimal numeral denotes, to say that \<open>FormatInt\<close> and \<open>FormatUint\<close> write the
  decimal representation of their argument: \<open>digits_value\<close> is the number spelled by a
  sequence of digits, \<open>numeral_value\<close> that of an optional minus sign and digits.
\<close>

definition isDigit :: "byte \<Rightarrow> bool" where
  "isDigit c = (0x30 \<le> c \<and> c \<le> 0x39)"

definition digits_value :: "bytes \<Rightarrow> nat" where
  "digits_value ds = foldl (\<lambda>a c. 10 * a + unat (c - 0x30)) 0 ds"

definition numeral_value :: "bytes \<Rightarrow> int" where
  "numeral_value s =
     (case s of [] \<Rightarrow> 0
      | c # ds \<Rightarrow> if c = 0x2D then - int (digits_value ds) else int (digits_value s))"

text \<open>The name that \<^verbatim>\<open>strconv\<close> gives to a value that is not finite.\<close>

definition nonfinite_name :: "float64 \<Rightarrow> bytes" where
  "nonfinite_name f =
     (if f64_isNaN f then B ''NaN'' else if f64_sign f then B ''-Inf'' else B ''+Inf'')"

text \<open>
  The number that a finite pattern stands for. With the exponent field \<open>e\<close> and the
  mantissa \<open>m\<close>, a binary64 is \<open>m * 2 ^ -1074\<close> when \<open>e = 0\<close> and
  \<open>(2 ^ 52 + m) * 2 ^ (e - 1075)\<close> otherwise; \<open>scaled 52 e m\<close> is that magnitude times
  \<open>2 ^ 1074\<close>, a natural number. A binary32 is \<open>m * 2 ^ -149\<close> or
  \<open>(2 ^ 23 + m) * 2 ^ (e - 150)\<close>.
\<close>

definition scaled :: "nat \<Rightarrow> nat \<Rightarrow> nat \<Rightarrow> nat" where
  "scaled p e m = (if e = 0 then m else (2 ^ p + m) * 2 ^ (e - 1))"

definition f64_val :: "float64 \<Rightarrow> real" where
  "f64_val x =
     (if f64_sign x then - 1 else 1) * real (scaled 52 (f64_exp x) (f64_mant x)) / 2 ^ 1074"

definition f32_val :: "float32 \<Rightarrow> real" where
  "f32_val x =
     (if f32_sign x then - 1 else 1) * real (scaled 23 (f32_exp x) (f32_mant x)) / 2 ^ 149"

definition f64_finite :: "float64 \<Rightarrow> bool" where
  "f64_finite x = (f64_exp x \<noteq> 0x7FF)"

definition f32_finite :: "float32 \<Rightarrow> bool" where
  "f32_finite x = (f32_exp x \<noteq> 0xFF)"

section \<open>Token streams and readers used as examples\<close>

text \<open>
  The answers of the tokenizer on the input \<^verbatim>\<open>[1,2}\<close>, taken as the token stream
  \<^verbatim>\<open>[\<close>, \<^verbatim>\<open>1\<close>, \<^verbatim>\<open>2\<close>, \<^verbatim>\<open>}\<close>: the lookahead \<^verbatim>\<open>More\<close> is false in front of a closing
  delimiter. The numbers 1 and 2 are the patterns \<open>0x3FF0000000000000\<close> and
  \<open>0x4000000000000000\<close>.
\<close>

definition tokens_mismatch :: Decoder where
  "tokens_mismatch =
     \<lparr>pending =
        [\<lparr>ans_more = True, ans_token = Inr (Delim 0x5B), ans_offset = 1\<rparr>,
         \<lparr>ans_more = True, ans_token = Inr (TFloat64 0x3FF0000000000000), ans_offset = 2\<rparr>,
         \<lparr>ans_more = True, ans_token = Inr (TFloat64 0x4000000000000000), ans_offset = 4\<rparr>,
         \<lparr>ans_more = False, ans_token = Inr (Delim 0x7D), ans_offset = 5\<rparr>],
      offset = 0\<rparr>"

text \<open>
  The same input as the decoder of the standard library answers it: it refuses the
  brace where the array should go on or end, so that \<^verbatim>\<open>Token\<close> returns a syntax error
  of its own and no delimiter.
\<close>

definition tokens_mismatch_refused :: Decoder where
  "tokens_mismatch_refused =
     \<lparr>pending =
        [\<lparr>ans_more = True, ans_token = Inr (Delim 0x5B), ans_offset = 1\<rparr>,
         \<lparr>ans_more = True, ans_token = Inr (TFloat64 0x3FF0000000000000), ans_offset = 2\<rparr>,
         \<lparr>ans_more = True, ans_token = Inr (TFloat64 0x4000000000000000), ans_offset = 4\<rparr>,
         \<lparr>ans_more = False,
          ans_token = Inl (SyntaxError (B ''invalid character } after array element'') 4),
          ans_offset = 4\<rparr>],
      offset = 0\<rparr>"

text \<open>
  The calls that read an array of two integers: \<^verbatim>\<open>ArrayStart\<close>, then \<^verbatim>\<open>More\<close> and
  \<^verbatim>\<open>Int(32)\<close> twice, then the \<^verbatim>\<open>More\<close> that reaches the end of the array. The result is
  what the calls returned and the Reader they leave.
\<close>

definition read_two_ints ::
    "Reader \<Rightarrow> panic + (bool \<times> bool \<times> 64 word \<times> bool \<times> 64 word \<times> bool) \<times> Reader" where
  "read_two_ints c0 =
     (case ArrayStart c0 of (ok, c1) \<Rightarrow>
      case More c1 of Inl p \<Rightarrow> Inl p | Inr (m1, c2) \<Rightarrow>
      case Reader_Int c2 32 of (v1, c3) \<Rightarrow>
      case More c3 of Inl p \<Rightarrow> Inl p | Inr (m2, c4) \<Rightarrow>
      case Reader_Int c4 32 of (v2, c5) \<Rightarrow>
      case More c5 of Inl p \<Rightarrow> Inl p | Inr (m3, c6) \<Rightarrow>
      Inr ((ok, m1, v1, m2, v2, m3), c6))"

text \<open>The tokens of the documents \<^verbatim>\<open>1\<close>, \<^verbatim>\<open>true\<close> and \<^verbatim>\<open>{}\<close>.\<close>

definition tokens_one :: Decoder where
  "tokens_one =
     \<lparr>pending = [\<lparr>ans_more = True, ans_token = Inr (TFloat64 0x3FF0000000000000), ans_offset = 1\<rparr>],
      offset = 0\<rparr>"

definition tokens_true :: Decoder where
  "tokens_true =
     \<lparr>pending = [\<lparr>ans_more = True, ans_token = Inr (TBool True), ans_offset = 4\<rparr>],
      offset = 0\<rparr>"

definition tokens_empty_object :: Decoder where
  "tokens_empty_object =
     \<lparr>pending =
        [\<lparr>ans_more = True, ans_token = Inr (Delim 0x7B), ans_offset = 1\<rparr>,
         \<lparr>ans_more = False, ans_token = Inr (Delim 0x7D), ans_offset = 2\<rparr>],
      offset = 0\<rparr>"

text \<open>A Reader that has met an error: \<^verbatim>\<open>Bool\<close> was called on the document \<^verbatim>\<open>1\<close>.\<close>

definition reader_failed :: Reader where
  "reader_failed = snd (Reader_Bool (NewReader tokens_one))"

text \<open>
  A Builder that has met an error and then written a key: \<^verbatim>\<open>StartObject\<close>,
  \<^verbatim>\<open>Key("a")\<close>, \<^verbatim>\<open>Float(NaN, 64)\<close>, \<^verbatim>\<open>Key("b")\<close>. The digits of finite numbers play no
  part in it.
\<close>

definition no_digits :: ftoa where
  "no_digits f fmt bits = []"

definition f64_NaN :: float64 where
  "f64_NaN = 0x7FF8000000000001"

definition builder_failed :: "panic + Builder" where
  "builder_failed =
     (case Float no_digits (Key (StartObject newBuilder) (B ''a'')) f64_NaN 64 of
        Inl p \<Rightarrow> Inl p
      | Inr e \<Rightarrow> Inr (Key e (B ''b'')))"

text \<open>
  Sequences of calls. A call of the Reader is one of its public methods with its
  arguments; \<open>Reader_call\<close> makes the call and forgets what it returns, \<open>Reader_calls\<close>
  makes the calls of a list in turn and stops at a panic.
\<close>

datatype Reader_method =
    R_Key | R_ObjectStart | R_ArrayStart | R_More | R_Int int | R_Uint int | R_Float int
  | R_Bool | R_Str | R_Blob | R_Discard

fun Reader_call :: "Reader \<Rightarrow> Reader_method \<Rightarrow> panic + Reader" where
  "Reader_call c R_Key = Inr (snd (Reader_Key c))"
| "Reader_call c R_ObjectStart = Inr (snd (ObjectStart c))"
| "Reader_call c R_ArrayStart = Inr (snd (ArrayStart c))"
| "Reader_call c R_More = (case More c of Inl p \<Rightarrow> Inl p | Inr (m, c1) \<Rightarrow> Inr c1)"
| "Reader_call c (R_Int bitsize) = Inr (snd (Reader_Int c bitsize))"
| "Reader_call c (R_Uint bitsize) = Inr (snd (Reader_Uint c bitsize))"
| "Reader_call c (R_Float bitsize) = Inr (snd (Reader_Float c bitsize))"
| "Reader_call c R_Bool = Inr (snd (Reader_Bool c))"
| "Reader_call c R_Str = Inr (snd (Reader_Str c))"
| "Reader_call c R_Blob = Inr (snd (Reader_Blob c))"
| "Reader_call c R_Discard = Inr (Discard c)"

fun Reader_calls :: "Reader \<Rightarrow> Reader_method list \<Rightarrow> panic + Reader" where
  "Reader_calls c [] = Inr c"
| "Reader_calls c (m # ms) =
     (case Reader_call c m of Inl p \<Rightarrow> Inl p | Inr c1 \<Rightarrow> Reader_calls c1 ms)"

text \<open>The same for the Builder's methods that emit.\<close>

datatype Builder_method =
    B_Key bytes | B_RawKey bytes | B_Start byte | B_End byte | B_Raw bytes | B_Null
  | B_Bool bool | B_Str bytes | B_Blob bytes | B_Int "64 word" int | B_Uint "64 word" int
  | B_Float float64 int

fun Builder_call :: "ftoa \<Rightarrow> Builder \<Rightarrow> Builder_method \<Rightarrow> panic + Builder" where
  "Builder_call digits e (B_Key k) = Inr (Key e k)"
| "Builder_call digits e (B_RawKey k) = Inr (RawKey e k)"
| "Builder_call digits e (B_Start kind) = Inr (Start e kind)"
| "Builder_call digits e (B_End kind) = Inr (End e kind)"
| "Builder_call digits e (B_Raw b) = Inr (Raw e b)"
| "Builder_call digits e B_Null = Inr (Null e)"
| "Builder_call digits e (B_Bool v) = Inr (Bool e v)"
| "Builder_call digits e (B_Str s) = Inr (Str e s)"
| "Builder_call digits e (B_Blob d) = Inr (Blob e d)"
| "Builder_call digits e (B_Int v bitsize) = Inr (Builder_Int e v bitsize)"
| "Builder_call digits e (B_Uint v bitsize) = Inr (Builder_Uint e v bitsize)"
| "Builder_call digits e (B_Float f bits) = Float digits e f bits"

fun Builder_calls :: "ftoa \<Rightarrow> Builder \<Rightarrow> Builder_method list \<Rightarrow> panic + Builder" where
  "Builder_calls digits e [] = Inr e"
| "Builder_calls digits e (m # ms) =
     (case Builder_call digits e m of Inl p \<Rightarrow> Inl p | Inr e1 \<Rightarrow> Builder_calls digits e1 ms)"

fun is_End :: "Builder_method \<Rightarrow> bool" where
  "is_End (B_End kind) = True"
| "is_End m = False"

text \<open>The Reader inside the empty object \<^verbatim>\<open>{}\<close>, after \<^verbatim>\<open>ObjectStart\<close>; and the tokens of
  \<^verbatim>\<open>{"a":true}\<close> once the brace is read.\<close>

definition reader_in_empty_object :: Reader where
  "reader_in_empty_object = snd (ObjectStart (NewReader tokens_empty_object))"

definition tokens_member :: Decoder where
  "tokens_member =
     \<lparr>pending =
        [\<lparr>ans_more = True, ans_token = Inr (TString (B ''a'')), ans_offset = 4\<rparr>,
         \<lparr>ans_more = True, ans_token = Inr (TBool True), ans_offset = 9\<rparr>,
         \<lparr>ans_more = False, ans_token = Inr (Delim 0x7D), ans_offset = 10\<rparr>],
      offset = 1\<rparr>"

text \<open>
  The \<^verbatim>\<open>float64\<close> that are nearest to \<open>9.999e20\<close> and to \<open>1.5e-7\<close>, and digits for the
  second: in the format \<^verbatim>\<open>e\<close> the standard library writes an exponent of at least two
  digits.
\<close>

definition f64_9999e17 :: float64 where
  "f64_9999e17 = 0x444B1A333426C08B"

definition f64_15e_8 :: float64 where
  "f64_15e_8 = 0x3E8421F5F40D8376"

definition digits_15e_8 :: ftoa where
  "digits_15e_8 f fmt bits = (if fmt = 0x65 then B ''1.5e-07'' else B ''0.00000015'')"

subsection \<open>The text of a JSON string and what it denotes\<close>

definition esc_byte :: "byte \<Rightarrow> bytes" where
  "esc_byte b =
     (if b = 0x5C \<or> b = 0x22 then [0x5C, b]
      else if b = 0x0A then [0x5C, 0x6E]
      else if b = 0x0D then [0x5C, 0x72]
      else if b = 0x09 then [0x5C, 0x74]
      else 0x5C # B ''u00'' @ [hexdigits ! unat (drop_bit 4 b), hexdigits ! unat (b AND 0xF)])"

function esc :: "bytes \<Rightarrow> bytes" where
  "esc s =
     (if s = [] then []
      else let b = s ! 0 in
        if b < 0x80 then (if jsonSafeSet b then [b] else esc_byte b) @ esc (drop 1 s)
        else
          (case DecodeRune s of (c, n) \<Rightarrow>
             if c = RuneError \<and> n = 1 then 0x5C # B ''ufffd'' @ esc (drop n s)
             else if c = 0x2028 \<or> c = 0x2029 then
               0x5C # B ''u202'' @ [hexdigits ! unat (c AND 0xF)] @ esc (drop n s)
             else take n s @ esc (drop n s)))"
  by pat_completeness auto

lemma DecodeRune_drop:
  assumes "s \<noteq> []" and "(c, n) = DecodeRune s"
  shows "length s - n < length s"
proof -
  have "0 < snd (DecodeRune s)" using assms(1) by (rule DecodeRune_size_pos)
  with assms(2) have "0 < n" by (metis snd_conv)
  with assms(1) show ?thesis by (cases s) simp_all
qed

termination esc
  by (relation "measure length") (auto intro: DecodeRune_drop)

declare esc.simps [simp del]


function ValidString :: "bytes \<Rightarrow> bool" where
  "ValidString s =
     (if s = [] then True
      else case DecodeRune s of (c, n) \<Rightarrow> \<not> (c = RuneError \<and> n = 1) \<and> ValidString (drop n s))"
  by pat_completeness auto

termination ValidString
  by (relation "measure length") (auto intro: DecodeRune_drop)

declare ValidString.simps [simp del]

definition hexval :: "byte \<Rightarrow> nat option" where
  "hexval c =
     (if 0x30 \<le> c \<and> c \<le> 0x39 then Some (unat c - 48)
      else if 0x61 \<le> c \<and> c \<le> 0x66 then Some (unat c - 87)
      else if 0x41 \<le> c \<and> c \<le> 0x46 then Some (unat c - 55)
      else None)"

fun unesc :: "bytes \<Rightarrow> bytes option" where
  "unesc [] = Some []"
| "unesc (c # cs) =
     (if c = 0x5C then
        (case cs of
           [] \<Rightarrow> None
         | x # r \<Rightarrow>
             if x = 0x22 \<or> x = 0x5C \<or> x = 0x2F then map_option ((#) x) (unesc r)
             else if x = 0x62 then map_option ((#) 0x08) (unesc r)
             else if x = 0x66 then map_option ((#) 0x0C) (unesc r)
             else if x = 0x6E then map_option ((#) 0x0A) (unesc r)
             else if x = 0x72 then map_option ((#) 0x0D) (unesc r)
             else if x = 0x74 then map_option ((#) 0x09) (unesc r)
             else if x = 0x75 then
               (case r of
                  h1 # h2 # h3 # h4 # r' \<Rightarrow>
                    (case (hexval h1, hexval h2, hexval h3, hexval h4) of
                       (Some a, Some b, Some c', Some d) \<Rightarrow>
                         (let cp = ((a * 16 + b) * 16 + c') * 16 + d
                          in if 0xD800 \<le> cp \<and> cp \<le> 0xDFFF then None
                             else map_option (\<lambda>t. runeString (of_nat cp) @ t) (unesc r'))
                     | _ \<Rightarrow> None)
                | _ \<Rightarrow> None)
             else None)
      else if c < 0x20 \<or> c = 0x22 then None
      else map_option ((#) c) (unesc cs))"

declare unesc.simps(2) [simp del]


section \<open>Properties of the Builder\<close>

subsection \<open>Strings and numerals\<close>


lemma loop_frame:
  assumes g: "\<And>e b. g (e\<lparr>Buffer := b\<rparr>) = g e"
  shows "g (fst (WriteJsonString_loop s st i e)) = g e"
proof (induction s st i e rule: WriteJsonString_loop.induct)
  case (1 s start i e)
  show ?case
    apply (subst WriteJsonString_loop.simps)
    using 1
    apply (auto simp: Let_def Write_def WriteByte_def g RuneError_def split: prod.splits)
    done
qed

lemma loop_safe:
  "(\<And>j. i \<le> j \<Longrightarrow> j < length s \<Longrightarrow> jsonSafeSet (s ! j)) \<Longrightarrow>
     WriteJsonString_loop s st i e = (e, st)"
proof (induction s st i e rule: WriteJsonString_loop.induct)
  case (1 s start i e)
  show ?case
  proof (cases "i < length s")
    case True
    then have safe: "jsonSafeSet (s ! i)" using "1.prems" by simp
    then have lt: "s ! i < 0x80" by (simp add: jsonSafeSet_def)
    have "WriteJsonString_loop s start (i + 1) e = (e, start)"
      using "1.IH"(1) [OF True refl lt safe] "1.prems" by simp
    then show ?thesis
      using True safe lt by (subst WriteJsonString_loop.simps) (simp add: Let_def)
  next
    case False
    then show ?thesis by (subst WriteJsonString_loop.simps) simp
  qed
qed

lemma WriteJsonString_safe:
  assumes "\<And>c. c \<in> set s \<Longrightarrow> jsonSafeSet c"
  shows "WriteJsonString e s = Write e ([0x22] @ s @ [0x22])"
proof -
  have "WriteJsonString_loop s 0 0 (WriteByte e 0x22) = (WriteByte e 0x22, 0)"
    using assms by (intro loop_safe) simp
  then show ?thesis
    by (cases "s = []") (simp_all add: WriteJsonString_def Write_def WriteByte_def)
qed

lemma digit_byte: "k < 10 \<Longrightarrow> jsonSafeSet (0x30 + of_nat k)"
proof -
  assume "k < 10"
  then have "k = 0 \<or> k = 1 \<or> k = 2 \<or> k = 3 \<or> k = 4 \<or> k = 5 \<or> k = 6 \<or> k = 7 \<or> k = 8 \<or> k = 9"
    by arith
  then show ?thesis by (auto simp: jsonSafeSet_def)
qed

lemma decimal_safe: "c \<in> set (decimal n) \<Longrightarrow> jsonSafeSet c"
proof (induction n arbitrary: c rule: decimal.induct)
  case (1 n)
  show ?case
  proof (cases "n < 10")
    case True
    with 1(2) show ?thesis by (subst (asm) decimal.simps) (simp add: digit_byte)
  next
    case False
    with 1 show ?thesis by (subst (asm) decimal.simps) (auto simp: digit_byte)
  qed
qed

lemma minus_safe: "jsonSafeSet 0x2D"
  by (simp add: jsonSafeSet_def)

lemma FormatInt_safe: "c \<in> set (FormatInt v) \<Longrightarrow> jsonSafeSet c"
  by (auto simp: FormatInt_def decimal_safe minus_safe split: if_splits)

lemma FormatUint_safe: "c \<in> set (FormatUint v) \<Longrightarrow> jsonSafeSet c"
  by (auto simp: FormatUint_def decimal_safe)


lemma WriteJsonString_frame:
  assumes g: "\<And>e b. g (e\<lparr>Buffer := b\<rparr>) = g e"
  shows "g (WriteJsonString e s) = g e"
proof -
  obtain e1 st where l: "WriteJsonString_loop s 0 0 (WriteByte e 0x22) = (e1, st)"
    by (cases "WriteJsonString_loop s 0 0 (WriteByte e 0x22)")
  have "g e1 = g (WriteByte e 0x22)"
    using loop_frame [of g s 0 0 "WriteByte e 0x22", OF g] l by simp
  then show ?thesis
    unfolding WriteJsonString_def l by (simp add: WriteByte_def Write_def g)
qed

lemma startChunk_fields [simp]:
  "Err (startChunk e st) = Err e"
  "Indent (startChunk e st) = Indent e"
  "state (startChunk e st) = st"
  "nestdepth (startChunk e st) = nestdepth e"
  "scratch (startChunk e st) = scratch e"
  by (simp_all add: startChunk_def newLine_def writeNewLine_def Write_def WriteByte_def Let_def
      split: builderState.splits)

lemma Write_fields [simp]:
  "Buffer (Write e p) = Buffer e @ p"
  "Err (Write e p) = Err e"
  "Indent (Write e p) = Indent e"
  "KeyTerm (Write e p) = KeyTerm e"
  "state (Write e p) = state e"
  "nestdepth (Write e p) = nestdepth e"
  "scratch (Write e p) = scratch e"
  by (simp_all add: Write_def)

lemma WriteJsonString_fields [simp]:
  "Err (WriteJsonString e s) = Err e"
  "Indent (WriteJsonString e s) = Indent e"
  "KeyTerm (WriteJsonString e s) = KeyTerm e"
  "state (WriteJsonString e s) = state e"
  "nestdepth (WriteJsonString e s) = nestdepth e"
  "scratch (WriteJsonString e s) = scratch e"
  by (simp_all add: WriteJsonString_frame)

lemma Key_state [simp]: "state (Key e k) = builderKey"
  by (simp add: Key_def KeyBytes_def Let_def)

lemma digit_unat_sub: "k < 10 \<Longrightarrow> unat (0x30 + of_nat k - 0x30 :: byte) = k"
proof -
  assume "k < 10"
  then have "k = 0 \<or> k = 1 \<or> k = 2 \<or> k = 3 \<or> k = 4 \<or> k = 5 \<or> k = 6 \<or> k = 7 \<or> k = 8 \<or> k = 9"
    by arith
  then show ?thesis by auto
qed

lemma unat_digit: "k < 10 \<Longrightarrow> unat (of_nat k :: byte) = k"
proof -
  assume "k < 10"
  then have "k = 0 \<or> k = 1 \<or> k = 2 \<or> k = 3 \<or> k = 4 \<or> k = 5 \<or> k = 6 \<or> k = 7 \<or> k = 8 \<or> k = 9"
    by arith
  then show ?thesis by auto
qed

lemma digits_value_decimal: "digits_value (decimal n) = n"
proof (induction n rule: decimal.induct)
  case (1 n)
  show ?case
  proof (cases "n < 10")
    case True
    then show ?thesis
      by (subst decimal.simps) (simp add: digits_value_def unat_digit)
  next
    case False
    have "digits_value (decimal (n div 10) @ [0x30 + of_nat (n mod 10)])
          = 10 * digits_value (decimal (n div 10)) + n mod 10"
      by (simp add: digits_value_def unat_digit)
    with False "1.IH" show ?thesis
      by (subst decimal.simps) simp
  qed
qed


lemma digit_isDigit: "k < 10 \<Longrightarrow> isDigit (0x30 + of_nat k)"
proof -
  assume "k < 10"
  then have "k = 0 \<or> k = 1 \<or> k = 2 \<or> k = 3 \<or> k = 4 \<or> k = 5 \<or> k = 6 \<or> k = 7 \<or> k = 8 \<or> k = 9"
    by arith
  then show ?thesis by (auto simp: isDigit_def)
qed

lemma decimal_digits: "c \<in> set (decimal n) \<Longrightarrow> isDigit c"
proof (induction n arbitrary: c rule: decimal.induct)
  case (1 n)
  show ?case
  proof (cases "n < 10")
    case True
    with "1.prems" show ?thesis by (subst (asm) decimal.simps) (simp add: digit_isDigit)
  next
    case False
    with 1 show ?thesis by (subst (asm) decimal.simps) (auto simp: digit_isDigit)
  qed
qed

lemma decimal_nonempty: "decimal n \<noteq> []"
  by (subst decimal.simps) simp

lemma numeral_value_FormatInt: "numeral_value (FormatInt v) = sint v"
proof (cases "sint v < 0")
  case True
  then show ?thesis
    by (simp add: FormatInt_def numeral_value_def digits_value_decimal)
next
  case False
  obtain c ds where d: "decimal (nat (sint v)) = c # ds"
    using decimal_nonempty [of "nat (sint v)"] by (cases "decimal (nat (sint v))") auto
  then have "isDigit c" using decimal_digits [of c "nat (sint v)"] by simp
  then have "c \<noteq> 0x2D" by (auto simp: isDigit_def)
  moreover have "digits_value (c # ds) = nat (sint v)"
    using digits_value_decimal [of "nat (sint v)"] d by simp
  ultimately show ?thesis
    using False d by (simp add: FormatInt_def numeral_value_def)
qed

lemma numeral_value_FormatUint: "numeral_value (FormatUint v) = uint v"
proof -
  obtain c ds where d: "decimal (unat v) = c # ds"
    using decimal_nonempty [of "unat v"] by (cases "decimal (unat v)") auto
  then have "isDigit c" using decimal_digits [of c "unat v"] by simp
  then have "c \<noteq> 0x2D" by (auto simp: isDigit_def)
  moreover have "digits_value (c # ds) = unat v"
    using digits_value_decimal [of "unat v"] d by simp
  ultimately show ?thesis
    using d by (simp add: FormatUint_def numeral_value_def)
qed


subsection \<open>The first error of the Builder\<close>

lemma Builder_setError_kept: "Err e = Some x \<Longrightarrow> setError e err = e"
  by (simp add: setError_def)

lemma WriteByte_fields [simp]:
  "Buffer (WriteByte e c) = Buffer e @ [c]"
  "Err (WriteByte e c) = Err e"
  "Indent (WriteByte e c) = Indent e"
  "KeyTerm (WriteByte e c) = KeyTerm e"
  "state (WriteByte e c) = state e"
  "nestdepth (WriteByte e c) = nestdepth e"
  "scratch (WriteByte e c) = scratch e"
  by (simp_all add: WriteByte_def)

lemma Float_Err:
  "Float digits e f bits = Inr e1 \<Longrightarrow>
     Err e1 = (if Err e = None \<and> (IsInf f 0 \<or> IsNaN f)
               then Err e1 else Err e)"
  by (auto simp: Float_def Let_def setError_def split: sum.splits if_splits)

lemma Builder_call_kept:
  assumes "Err e = Some x" and "\<not> is_End m" and "Builder_call digits e m = Inr e1"
  shows "Err e1 = Some x"
proof (cases m)
  case (B_Float f bits)
  with assms show ?thesis using Float_Err [of digits e f bits e1] by simp
qed (use assms in \<open>auto simp: Key_def KeyBytes_def RawKey_def Start_def Raw_def Null_def
      Bool_def Str_def Blob_def Builder_Int_def Builder_Uint_def Let_def\<close>)

lemma Builder_calls_kept:
  "Err e = Some x \<Longrightarrow> \<forall>m \<in> set ms. \<not> is_End m \<Longrightarrow>
     Builder_calls digits e ms = Inr e1 \<Longrightarrow> Err e1 = Some x"
proof (induction ms arbitrary: e)
  case Nil
  then show ?case by simp
next
  case (Cons m ms)
  then show ?case
    by (auto split: sum.splits dest: Builder_call_kept)
qed

lemma End_replaces_error:
  "state e = builderKey \<Longrightarrow> Err (End e kind) = Some (Errorf (B ''key without value''))"
  by (simp add: End_def Let_def)

lemma IsNaN_f64_NaN: "IsNaN f64_NaN" "\<not> IsInf f64_NaN 0"
  by (simp_all add: IsNaN_def IsInf_def f64_eq_def f64_lt_def f64_isNaN_def f64_NaN_def
      MaxFloat64_def f64_exp_def f64_mant_def)

lemma FormatFloat_NaN: "genericFtoa digits dst f64_NaN fmt 64 = Inr (dst @ B ''NaN'')"
  by (simp add: genericFtoa_def f64_NaN_def f64_exp_def f64_mant_def)

lemma Reset_fresh:
  "Reset e = newBuilder\<lparr>Indent := Indent e, KeyTerm := KeyTerm e, scratch := scratch e\<rparr>"
  by (simp add: Reset_def newBuilder_def)

lemma FormatInt_minus_42: "FormatInt (- 42) = B ''-42''"
  by (simp add: FormatInt_def decimal.simps B_def)
lemma FormatUint_max: "FormatUint 18446744073709551615 = B ''18446744073709551615''"
  by (simp add: FormatUint_def decimal.simps B_def)
lemma startChunk_newBuilder: "Buffer (startChunk newBuilder builderValue) = []"
  by (simp add: startChunk_def newBuilder_def)

lemma FormatInt_2_40: "FormatInt 1099511627776 = B ''1099511627776''"
  by (simp add: FormatInt_def decimal.simps B_def)

lemma FormatUint_2_40: "FormatUint 1099511627776 = B ''1099511627776''"
  by (simp add: FormatUint_def decimal.simps B_def)

subsection \<open>Floating point patterns\<close>

lemma unat_and_mask: "unat (x AND mask n :: 'a::len word) = unat x mod 2 ^ n"
proof -
  have "x AND mask n = take_bit n x" by (simp only: take_bit_eq_mask)
  then have "unat (x AND mask n) = take_bit n (unat x)" by (simp only: unsigned_take_bit_eq)
  then show ?thesis by (simp only: take_bit_eq_mod)
qed

lemma unat_drop_and_mask:
  "unat (drop_bit k x AND mask n :: 'a::len word) = unat x div 2 ^ k mod 2 ^ n"
proof -
  have "unat (drop_bit k x AND mask n) = unat (drop_bit k x) mod 2 ^ n"
    by (simp only: unat_and_mask)
  also have "unat (drop_bit k x) = drop_bit k (unat x)"
    by (simp only: unat_drop_bit_eq)
  also have "drop_bit k (unat x) = unat x div 2 ^ k"
    by (simp only: drop_bit_eq_div)
  finally show ?thesis .
qed

lemma f64_exp_eq: "f64_exp x = unat x div 2 ^ 52 mod 2 ^ 11"
proof -
  have "(0x7FF :: 64 word) = mask 11" by (simp add: mask_eq_exp_minus_1)
  then show ?thesis unfolding f64_exp_def by (simp only: unat_drop_and_mask)
qed

lemma f64_mant_eq: "f64_mant x = unat x mod 2 ^ 52"
proof -
  have "(0xFFFFFFFFFFFFF :: 64 word) = mask 52" by (simp add: mask_eq_exp_minus_1)
  then show ?thesis unfolding f64_mant_def by (simp only: unat_and_mask)
qed

lemma f32_exp_eq: "f32_exp x = unat x div 2 ^ 23 mod 2 ^ 8"
proof -
  have "(0xFF :: 32 word) = mask 8" by (simp add: mask_eq_exp_minus_1)
  then show ?thesis unfolding f32_exp_def by (simp only: unat_drop_and_mask)
qed

lemma f32_mant_eq: "f32_mant x = unat x mod 2 ^ 23"
proof -
  have "(0x7FFFFF :: 32 word) = mask 23" by (simp add: mask_eq_exp_minus_1)
  then show ?thesis unfolding f32_mant_def by (simp only: unat_and_mask)
qed

lemma f64_exp_less: "f64_exp x < 2048"
  unfolding f64_exp_eq by simp

lemma f64_mant_less: "f64_mant x < 2 ^ 52"
  unfolding f64_mant_eq by simp

lemma f32_sign_eq: "f32_sign x \<longleftrightarrow> odd (unat x div 2 ^ 31)"
proof -
  have "bit x 31 \<longleftrightarrow> bit (unat x) 31" by (simp add: bit_unsigned_iff)
  then show ?thesis unfolding f32_sign_def by (simp only: bit_iff_odd)
qed

lemma f64_sign_eq: "f64_sign x \<longleftrightarrow> odd (unat x div 2 ^ 63)"
proof -
  have "bit x 63 \<longleftrightarrow> bit (unat x) 63" by (simp add: bit_unsigned_iff)
  then show ?thesis unfolding f64_sign_def by (simp only: bit_iff_odd)
qed

lemma f32_make_unat:
  assumes "e < 256" and "m < 2 ^ 23"
  shows "unat (f32_make s e m) = (if s then 2 ^ 8 else 0) * 2 ^ 23 + e * 2 ^ 23 + m"
proof -
  have "e * 2 ^ 23 + m < 256 * 2 ^ 23"
    using assms by simp
  then have "(if s then 2 ^ 8 else 0) * 2 ^ 23 + e * 2 ^ 23 + m < (2 :: nat) ^ 32"
    by simp
  then show ?thesis
    unfolding f32_make_def by (simp only: unat_of_nat) simp
qed

lemma f32_make_fields:
  assumes "e < 256" and "m < 2 ^ 23"
  shows "f32_exp (f32_make s e m) = e" "f32_mant (f32_make s e m) = m"
    "f32_sign (f32_make s e m) = s"
proof -
  let ?S = "(if s then 2 ^ 8 else 0) :: nat"
  have u: "unat (f32_make s e m) = (?S + e) * 2 ^ 23 + m"
    using f32_make_unat [OF assms, of s] by (simp add: algebra_simps)
  have d: "((?S + e) * 2 ^ 23 + m) div 2 ^ 23 = ?S + e"
    using assms(2) by simp
  show "f32_exp (f32_make s e m) = e"
    unfolding f32_exp_eq u d using assms(1) by simp
  have "((?S + e) * 2 ^ 23 + m) mod 2 ^ 23 = m mod 2 ^ 23"
    by (rule mod_mult_self3)
  then show "f32_mant (f32_make s e m) = m"
    unfolding f32_mant_eq u using assms(2) by (simp only: mod_less)
  have "unat (f32_make s e m) div 2 ^ 31 = ((?S + e) * 2 ^ 23 + m) div 2 ^ 23 div 2 ^ 8"
    unfolding u by (simp add: div_mult2_eq [symmetric])
  also have "\<dots> = (?S + e) div 2 ^ 8"
    unfolding d ..
  also have "\<dots> = (if s then 1 else 0)"
  proof (cases s)
    case True
    have "(256 + e) div 256 = 1" using assms(1) by arith
    with True show ?thesis by simp
  next
    case False
    with assms(1) show ?thesis by simp
  qed
  finally show "f32_sign (f32_make s e m) = s"
    unfolding f32_sign_eq by simp
qed

lemma IsNaN_iff: "IsNaN f \<longleftrightarrow> f64_isNaN f"
  by (simp add: IsNaN_def f64_eq_def)

lemma MaxFloat64_fields:
  "f64_exp MaxFloat64 = 2046" "f64_mant MaxFloat64 = 2 ^ 52 - 1" "\<not> f64_sign MaxFloat64"
  "f64_exp (MaxFloat64 OR 0x8000000000000000) = 2046"
  "f64_mant (MaxFloat64 OR 0x8000000000000000) = 2 ^ 52 - 1"
  "f64_sign (MaxFloat64 OR 0x8000000000000000)"
  by (simp_all add: MaxFloat64_def f64_exp_def f64_mant_def f64_sign_def)

lemma IsInf_iff: "IsInf f 0 \<longleftrightarrow> f64_exp f = 0x7FF \<and> f64_mant f = 0"
proof -
  have e: "f64_exp f < 2048" and m: "f64_mant f < 4503599627370496"
    using f64_exp_less [of f] f64_mant_less [of f] by simp_all
  show ?thesis
    using e m
    by (auto simp: IsInf_def f64_lt_def f64_isNaN_def f64_key_def MaxFloat64_fields Let_def)
qed

lemma f64_to_f32_NaN:
  assumes "f64_isNaN f"
  shows "f32_exp (f64_to_f32 f) = 0xFF" "f32_mant (f64_to_f32 f) \<noteq> 0"
proof -
  let ?r = "f64_mant f div 2 ^ 29 mod 2 ^ 22"
  have "?r < 2 ^ 22" by simp
  then have r: "2 ^ 22 + ?r < (2 :: nat) ^ 23" by simp
  have eq: "f64_to_f32 f = f32_make (f64_sign f) 0xFF (2 ^ 22 + ?r)"
    using assms by (simp add: f64_to_f32_def f64_isNaN_def Let_def)
  show "f32_exp (f64_to_f32 f) = 0xFF"
    unfolding eq using f32_make_fields(1) [OF _ r, of 255] by simp
  show "f32_mant (f64_to_f32 f) \<noteq> 0"
    unfolding eq using f32_make_fields(2) [OF _ r, of 255] by simp
qed

lemma f64_to_f32_Inf:
  assumes "f64_exp f = 0x7FF" and "f64_mant f = 0"
  shows "f32_exp (f64_to_f32 f) = 0xFF" "f32_mant (f64_to_f32 f) = 0"
    "f32_sign (f64_to_f32 f) = f64_sign f"
proof -
  have eq: "f64_to_f32 f = f32_make (f64_sign f) 0xFF 0"
    using assms by (simp add: f64_to_f32_def Let_def)
  show "f32_exp (f64_to_f32 f) = 0xFF"
    unfolding eq using f32_make_fields(1) [of 255 0] by simp
  show "f32_mant (f64_to_f32 f) = 0"
    unfolding eq using f32_make_fields(2) [of 255 0] by simp
  show "f32_sign (f64_to_f32 f) = f64_sign f"
    unfolding eq using f32_make_fields(3) [of 255 0] by simp
qed

lemma genericFtoa_not_finite:
  assumes "f64_exp f = 0x7FF" and "bits = 32 \<or> bits = 64"
  shows "genericFtoa digits dst f fmt bits = Inr (dst @ nonfinite_name f)"
proof (cases "f64_mant f = 0")
  case True
  with assms f64_to_f32_Inf [OF assms(1) True] show ?thesis
    by (auto simp: genericFtoa_def nonfinite_name_def f64_isNaN_def Let_def)
next
  case False
  then have "f64_isNaN f" using assms(1) by (simp add: f64_isNaN_def)
  with assms False f64_to_f32_NaN [of f] show ?thesis
    by (auto simp: genericFtoa_def nonfinite_name_def Let_def)
qed

lemma Float_cleanup_not_finite: "Float_cleanup (nonfinite_name f) = nonfinite_name f"
  by (simp add: Float_cleanup_def nonfinite_name_def B_def)

lemma not_finite_exp: "IsNaN f \<or> IsInf f 0 \<Longrightarrow> f64_exp f = 0x7FF"
  by (auto simp: IsNaN_iff IsInf_iff f64_isNaN_def)

lemma Null_fields:
  "state (Null e) = builderValue" "nestdepth (Null e) = nestdepth e"
  "Indent (Null e) = Indent e" "KeyTerm (Null e) = KeyTerm (startChunk e builderValue)"
  by (simp_all add: Null_def Raw_def)

subsection \<open>The numbers behind the patterns\<close>

lemma scaled_upper: "m < 2 ^ p \<Longrightarrow> scaled p e m < 2 ^ p * 2 ^ e"
proof (cases "e = 0")
  case True
  then show "m < 2 ^ p \<Longrightarrow> ?thesis" by (simp add: scaled_def)
next
  case False
  assume m: "m < 2 ^ p"
  then have "(2 ^ p + m) * 2 ^ (e - 1) < (2 ^ p + 2 ^ p) * 2 ^ (e - 1)"
    by simp
  also have "\<dots> = 2 ^ p * 2 ^ Suc (e - 1)"
    by simp
  also have "Suc (e - 1) = e" using False by simp
  finally show ?thesis using False by (simp add: scaled_def)
qed

lemma scaled_lower: "0 < e \<Longrightarrow> 2 ^ p * 2 ^ (e - 1) \<le> scaled p e m"
  by (simp add: scaled_def)

lemma scaled_mono:
  assumes "ma < 2 ^ p" and "mb < 2 ^ p" and "ea * 2 ^ p + ma < eb * 2 ^ p + mb"
  shows "scaled p ea ma < scaled p eb mb"
proof -
  have le: "ea \<le> eb"
  proof (rule ccontr)
    assume "\<not> ea \<le> eb"
    then have "eb + 1 \<le> ea" by simp
    then have "(eb + 1) * 2 ^ p \<le> ea * 2 ^ p" by (rule mult_le_mono1)
    with assms show False by (simp add: algebra_simps)
  qed
  show ?thesis
  proof (cases "ea = eb")
    case True
    with assms have "ma < mb" by simp
    with True show ?thesis by (simp add: scaled_def)
  next
    case False
    with le have lt: "ea < eb" by simp
    then have "ea \<le> eb - 1" and pos: "0 < eb" by simp_all
    then have "(2 :: nat) ^ ea \<le> 2 ^ (eb - 1)" by (simp add: power_increasing)
    then have "(2 :: nat) ^ p * 2 ^ ea \<le> 2 ^ p * 2 ^ (eb - 1)" by simp
    with scaled_upper [OF assms(1), of ea] scaled_lower [OF pos, of p mb]
    show ?thesis by linarith
  qed
qed

lemma scaled_less_iff:
  assumes "ma < 2 ^ p" and "mb < 2 ^ p"
  shows "scaled p ea ma < scaled p eb mb \<longleftrightarrow> ea * 2 ^ p + ma < eb * 2 ^ p + mb"
proof
  assume "ea * 2 ^ p + ma < eb * 2 ^ p + mb"
  then show "scaled p ea ma < scaled p eb mb" using assms by (intro scaled_mono)
next
  assume s: "scaled p ea ma < scaled p eb mb"
  show "ea * 2 ^ p + ma < eb * 2 ^ p + mb"
  proof (rule ccontr)
    assume "\<not> ea * 2 ^ p + ma < eb * 2 ^ p + mb"
    then consider "eb * 2 ^ p + mb < ea * 2 ^ p + ma" | "eb * 2 ^ p + mb = ea * 2 ^ p + ma"
      by linarith
    then show False
    proof cases
      case 1
      then have "scaled p eb mb < scaled p ea ma" using assms by (intro scaled_mono)
      with s show False by simp
    next
      case 2
      have "(eb * 2 ^ p + mb) div 2 ^ p = eb" "(ea * 2 ^ p + ma) div 2 ^ p = ea"
        "(eb * 2 ^ p + mb) mod 2 ^ p = mb" "(ea * 2 ^ p + ma) mod 2 ^ p = ma"
        using assms by simp_all
      with 2 have "ea = eb" "ma = mb" by metis+
      with s show False by simp
    qed
  qed
qed

lemma scaled_eq_0_iff: "scaled p e m = 0 \<longleftrightarrow> e * 2 ^ p + m = 0"
  by (auto simp: scaled_def)

lemma Abs_mask: "Abs f = f AND mask 63"
proof -
  have "NOT 0x8000000000000000 = (mask 63 :: 64 word)"
    by (simp add: mask_eq_exp_minus_1)
  then show ?thesis by (simp add: Abs_def)
qed

lemma Abs_fields:
  "f64_exp (Abs f) = f64_exp f" "f64_mant (Abs f) = f64_mant f" "\<not> f64_sign (Abs f)"
proof -
  have a: "Abs f = take_bit 63 f" by (simp add: Abs_mask take_bit_eq_mask)
  have m11: "(0x7FF :: 64 word) = mask 11" and m52: "(0xFFFFFFFFFFFFF :: 64 word) = mask 52"
    by (simp_all add: mask_eq_exp_minus_1)
  have "drop_bit 52 (take_bit 63 f) AND mask 11 = drop_bit 52 f AND mask 11"
    by (simp add: drop_bit_take_bit flip: take_bit_eq_mask)
  then show "f64_exp (Abs f) = f64_exp f"
    unfolding f64_exp_def a m11 by simp
  have "take_bit 63 f AND mask 52 = f AND mask 52"
    by (simp flip: take_bit_eq_mask)
  then show "f64_mant (Abs f) = f64_mant f"
    unfolding f64_mant_def a m52 by simp
  show "\<not> f64_sign (Abs f)"
    unfolding f64_sign_def a by (simp add: bit_take_bit_iff)
qed

lemma zero_fields: "f64_exp 0 = 0" "f64_mant 0 = 0" "\<not> f64_sign 0"
  by (simp_all add: f64_exp_def f64_mant_def f64_sign_def)

lemma f64_val_Abs: "f64_val (Abs f) = \<bar>f64_val f\<bar>"
  by (simp add: f64_val_def Abs_fields abs_mult)

lemma f64_val_eq_0_iff: "f64_val f = 0 \<longleftrightarrow> f64_exp f * 2 ^ 52 + f64_mant f = 0"
  by (auto simp: f64_val_def scaled_def)

lemma f64_lt_val:
  assumes "f64_finite a" "f64_finite b" "\<not> f64_sign a" "\<not> f64_sign b"
  shows "f64_lt a b \<longleftrightarrow> f64_val a < f64_val b"
proof -
  have "f64_key a = int (f64_exp a * 2 ^ 52 + f64_mant a)"
    "f64_key b = int (f64_exp b * 2 ^ 52 + f64_mant b)"
    using assms by (simp_all add: f64_key_def Let_def)
  then have "f64_key a < f64_key b \<longleftrightarrow>
      f64_exp a * 2 ^ 52 + f64_mant a < f64_exp b * 2 ^ 52 + f64_mant b"
    by (simp only: of_nat_less_iff)
  then have "f64_lt a b \<longleftrightarrow> f64_exp a * 2 ^ 52 + f64_mant a < f64_exp b * 2 ^ 52 + f64_mant b"
    using assms by (simp add: f64_lt_def f64_isNaN_def f64_finite_def)
  also have "\<dots> \<longleftrightarrow> scaled 52 (f64_exp a) (f64_mant a) < scaled 52 (f64_exp b) (f64_mant b)"
    using scaled_less_iff [of "f64_mant a" 52 "f64_mant b" "f64_exp a" "f64_exp b"]
      f64_mant_less [of a] f64_mant_less [of b] by simp
  also have "\<dots> \<longleftrightarrow> f64_val a < f64_val b"
    using assms by (simp add: f64_val_def divide_less_cancel)
  finally show ?thesis .
qed

lemma f64_ge_val:
  assumes "f64_finite a" "f64_finite b" "\<not> f64_sign a" "\<not> f64_sign b"
  shows "f64_ge a b \<longleftrightarrow> f64_val a \<ge> f64_val b"
proof -
  have "f64_ge a b \<longleftrightarrow> \<not> f64_lt a b"
    using assms by (auto simp: f64_ge_def f64_lt_def f64_isNaN_def f64_finite_def)
  then show ?thesis using f64_lt_val [OF assms] by auto
qed

lemma f64_ne_0_val:
  assumes "f64_finite f"
  shows "\<not> f64_eq (Abs f) 0 \<longleftrightarrow> f64_val f \<noteq> 0"
  using assms
  by (auto simp: f64_eq_def f64_isNaN_def f64_key_def Abs_fields zero_fields f64_val_eq_0_iff
      f64_finite_def Let_def)

lemma f32_lt_val:
  assumes "f32_finite a" "f32_finite b" "\<not> f32_sign a" "\<not> f32_sign b"
  shows "f32_lt a b \<longleftrightarrow> f32_val a < f32_val b"
proof -
  have ma: "f32_mant a < 2 ^ 23" and mb: "f32_mant b < 2 ^ 23"
    unfolding f32_mant_eq by simp_all
  have "f32_key a = int (f32_exp a * 2 ^ 23 + f32_mant a)"
    "f32_key b = int (f32_exp b * 2 ^ 23 + f32_mant b)"
    using assms by (simp_all add: f32_key_def Let_def)
  then have "f32_key a < f32_key b \<longleftrightarrow>
      f32_exp a * 2 ^ 23 + f32_mant a < f32_exp b * 2 ^ 23 + f32_mant b"
    by (simp only: of_nat_less_iff)
  then have "f32_lt a b \<longleftrightarrow> f32_exp a * 2 ^ 23 + f32_mant a < f32_exp b * 2 ^ 23 + f32_mant b"
    using assms by (simp add: f32_lt_def f32_isNaN_def f32_finite_def)
  also have "\<dots> \<longleftrightarrow> scaled 23 (f32_exp a) (f32_mant a) < scaled 23 (f32_exp b) (f32_mant b)"
    using scaled_less_iff [OF ma mb, of "f32_exp a" "f32_exp b"] by simp
  also have "\<dots> \<longleftrightarrow> f32_val a < f32_val b"
    using assms by (simp add: f32_val_def divide_less_cancel)
  finally show ?thesis .
qed

lemma f32_ge_val:
  assumes "f32_finite a" "f32_finite b" "\<not> f32_sign a" "\<not> f32_sign b"
  shows "f32_ge a b \<longleftrightarrow> f32_val a \<ge> f32_val b"
proof -
  have "f32_ge a b \<longleftrightarrow> \<not> f32_lt a b"
    using assms by (auto simp: f32_ge_def f32_lt_def f32_isNaN_def f32_finite_def)
  then show ?thesis using f32_lt_val [OF assms] by auto
qed

lemma const_fields:
  "f64_exp f64_1e_6 = 1003" "f64_mant f64_1e_6 = 0xC6F7A0B5ED8D" "\<not> f64_sign f64_1e_6"
  "f64_exp f64_1e21 = 1092" "f64_mant f64_1e21 = 0xB1AE4D6E2EF50" "\<not> f64_sign f64_1e21"
  "f32_exp f32_1e_6 = 107" "f32_mant f32_1e_6 = 0x0637BD" "\<not> f32_sign f32_1e_6"
  "f32_exp f32_1e21 = 196" "f32_mant f32_1e21 = 0x58D727" "\<not> f32_sign f32_1e21"
  by (simp_all add: f64_1e_6_def f64_1e21_def f32_1e_6_def f32_1e21_def f64_exp_def f64_mant_def
      f64_sign_def f32_exp_def f32_mant_def f32_sign_def)

lemma f64_val_1e21: "f64_val f64_1e21 = 10 ^ 21"
proof -
  have "(2 :: real) ^ 1091 = 2 ^ 17 * 2 ^ 1074"
    by (simp only: power_add [symmetric]) simp
  then show ?thesis
    by (simp add: f64_val_def const_fields scaled_def)
qed

lemma f64_val_1e_6: "\<bar>f64_val f64_1e_6 - 1 / 10 ^ 6\<bar> \<le> 1 / 2 ^ 73"
proof -
  have "(2 :: real) ^ 1074 = 2 ^ 72 * 2 ^ 1002"
    by (simp only: power_add [symmetric]) simp
  then have "f64_val f64_1e_6 = 4722366482869645 / 2 ^ 72"
    by (simp add: f64_val_def const_fields scaled_def)
  then show ?thesis by simp
qed

lemma f32_val_1e21: "\<bar>f32_val f32_1e21 - 10 ^ 21\<bar> \<le> 2 ^ 45"
proof -
  have "(2 :: real) ^ 195 = 2 ^ 46 * 2 ^ 149"
    by (simp only: power_add [symmetric]) simp
  then have "f32_val f32_1e21 = 14210855 * 2 ^ 46"
    by (simp add: f32_val_def const_fields scaled_def)
  then show ?thesis by simp
qed

lemma f32_val_1e_6: "\<bar>f32_val f32_1e_6 - 1 / 10 ^ 6\<bar> \<le> 1 / 2 ^ 44"
proof -
  have "(2 :: real) ^ 149 = 2 ^ 43 * 2 ^ 106"
    by (simp only: power_add [symmetric]) simp
  then have "f32_val f32_1e_6 = 8796093 / 2 ^ 43"
    by (simp add: f32_val_def const_fields scaled_def)
  then show ?thesis by simp
qed

subsection \<open>The format of a finite number\<close>

lemma f64_to_f32_shape:
  "\<exists>e m. f64_to_f32 x = f32_make (f64_sign x) e m \<and> e < 256 \<and> m < 2 ^ 23"
proof -
  have r: "2 ^ 22 + f64_mant x div 2 ^ 29 mod 2 ^ 22 < (2 :: nat) ^ 23"
  proof -
    have "f64_mant x div 2 ^ 29 mod 2 ^ 22 < 2 ^ 22" by simp
    then show ?thesis by simp
  qed
  have d: "b div 2 ^ 23 < 256" if "\<not> 255 * 2 ^ 23 \<le> b" for b :: nat
  proof -
    from that have "b < 256 * 2 ^ 23" by simp
    then show ?thesis by (simp only: less_mult_imp_div_less)
  qed
  show ?thesis
    unfolding f64_to_f32_def Let_def
    using r d by (auto intro!: exI)
qed

lemma f64_to_f32_sign: "f32_sign (f64_to_f32 x) = f64_sign x"
proof -
  obtain e m where "f64_to_f32 x = f32_make (f64_sign x) e m" "e < 256" "m < 2 ^ 23"
    using f64_to_f32_shape by blast
  then show ?thesis by (simp add: f32_make_fields)
qed

lemma Float_fmt_values: "Float_fmt f bits = 0x65 \<or> Float_fmt f bits = 0x66"
  by (simp add: Float_fmt_def Let_def)

lemma Float_fmt_64:
  assumes "f64_finite f"
  shows "Float_fmt f 64 = 0x65 \<longleftrightarrow>
    f64_val f \<noteq> 0 \<and> (\<bar>f64_val f\<bar> < f64_val f64_1e_6 \<or> \<bar>f64_val f\<bar> \<ge> 10 ^ 21)"
proof -
  have fa: "f64_finite (Abs f)" "\<not> f64_sign (Abs f)"
    using assms by (simp_all add: f64_finite_def Abs_fields)
  have c: "f64_finite f64_1e_6" "\<not> f64_sign f64_1e_6" "f64_finite f64_1e21" "\<not> f64_sign f64_1e21"
    by (simp_all add: f64_finite_def const_fields)
  have "f64_lt (Abs f) f64_1e_6 \<longleftrightarrow> \<bar>f64_val f\<bar> < f64_val f64_1e_6"
    using f64_lt_val [OF fa(1) c(1) fa(2) c(2)] by (simp add: f64_val_Abs)
  moreover have "f64_ge (Abs f) f64_1e21 \<longleftrightarrow> \<bar>f64_val f\<bar> \<ge> 10 ^ 21"
    using f64_ge_val [OF fa(1) c(3) fa(2) c(4)] by (simp add: f64_val_Abs f64_val_1e21)
  ultimately show ?thesis
    using f64_ne_0_val [OF assms] by (simp add: Float_fmt_def Let_def)
qed

lemma Float_fmt_32:
  assumes "f64_finite f" and "f32_finite (f64_to_f32 (Abs f))"
  shows "Float_fmt f 32 = 0x65 \<longleftrightarrow>
    f64_val f \<noteq> 0 \<and>
    (f32_val (f64_to_f32 (Abs f)) < f32_val f32_1e_6 \<or>
     f32_val (f64_to_f32 (Abs f)) \<ge> f32_val f32_1e21)"
proof -
  have s: "\<not> f32_sign (f64_to_f32 (Abs f))"
    by (simp add: f64_to_f32_sign Abs_fields)
  have c: "f32_finite f32_1e_6" "\<not> f32_sign f32_1e_6" "f32_finite f32_1e21" "\<not> f32_sign f32_1e21"
    by (simp_all add: f32_finite_def const_fields)
  show ?thesis
    using f64_ne_0_val [OF assms(1)] f32_lt_val [OF assms(2) c(1) s c(2)]
      f32_ge_val [OF assms(2) c(3) s c(4)]
    by (simp add: Float_fmt_def Let_def)
qed

lemma f32_finite_imp_f64_finite: "f32_finite (f64_to_f32 f) \<Longrightarrow> f64_finite f"
proof (rule ccontr)
  assume a: "f32_finite (f64_to_f32 f)" and "\<not> f64_finite f"
  then have x: "f64_exp f = 0x7FF" by (simp add: f64_finite_def)
  show False
  proof (cases "f64_mant f = 0")
    case True
    with a f64_to_f32_Inf(1) [OF x True] show False by (simp add: f32_finite_def)
  next
    case False
    with x have "f64_isNaN f" by (simp add: f64_isNaN_def)
    with a f64_to_f32_NaN(1) [of f] show False by (simp add: f32_finite_def)
  qed
qed

lemma Float_finite:
  assumes "bits = 64 \<and> f64_finite f \<or> bits = 32 \<and> f32_finite (f64_to_f32 f)"
  shows "Float digits e f bits =
     Inr (let b = (if Float_fmt f bits = 0x65 then Float_cleanup (digits f 0x65 bits)
                   else digits f 0x66 bits)
          in Write ((startChunk e builderValue)\<lparr>scratch := b\<rparr>) b)"
proof -
  have fin: "f64_finite f" using assms f32_finite_imp_f64_finite by blast
  then have n: "\<not> IsInf f 0" "\<not> IsNaN f"
    by (simp_all add: IsInf_iff IsNaN_iff f64_isNaN_def f64_finite_def)
  have g: "genericFtoa digits [] f fmt bits = Inr (digits f fmt bits)" for fmt
    using assms by (auto simp: genericFtoa_def f64_finite_def f32_finite_def Let_def)
  show ?thesis
    using Float_fmt_values [of f bits]
    by (auto simp: Float_def n AppendFloat_def g Let_def)
qed

lemma Float_cleanup_strip: "Float_cleanup (d @ B ''e-0'' @ [c]) = d @ B ''e-'' @ [c]"
  by (simp add: Float_cleanup_def B_def nth_append list_update_append)

lemma Float_cleanup_keep:
  "c1 \<noteq> 0x30 \<Longrightarrow> Float_cleanup (d @ B ''e-'' @ [c1, c2]) = d @ B ''e-'' @ [c1, c2]"
  by (simp add: Float_cleanup_def B_def nth_append)

lemma Float_cleanup_plus: "Float_cleanup (d @ B ''e+'' @ [c1, c2]) = d @ B ''e+'' @ [c1, c2]"
  by (simp add: Float_cleanup_def B_def nth_append)

lemma example_fields:
  "f64_exp f64_9999e17 = 1092" "f64_mant f64_9999e17 = 0xB1A333426C08B" "\<not> f64_sign f64_9999e17"
  "f64_exp f64_15e_8 = 1000" "f64_mant f64_15e_8 = 0x421F5F40D8376" "\<not> f64_sign f64_15e_8"
  by (simp_all add: f64_9999e17_def f64_15e_8_def f64_exp_def f64_mant_def f64_sign_def)

lemma f64_val_9999e17: "\<bar>f64_val f64_9999e17 - 9999 * 10 ^ 17\<bar> \<le> 2 ^ 16"
proof -
  have "(2 :: real) ^ 1091 = 2 ^ 17 * 2 ^ 1074"
    by (simp only: power_add [symmetric]) simp
  then have "f64_val f64_9999e17 = 7628631591796875 * 2 ^ 17"
    by (simp add: f64_val_def example_fields scaled_def)
  then show ?thesis by simp
qed

lemma f64_val_15e_8: "\<bar>f64_val f64_15e_8 - 15 / 10 ^ 8\<bar> \<le> 1 / 2 ^ 76"
proof -
  have "(2 :: real) ^ 1074 = 2 ^ 75 * 2 ^ 999"
    by (simp only: power_add [symmetric]) simp
  then have "f64_val f64_15e_8 = 5666839779443574 / 2 ^ 75"
    by (simp add: f64_val_def example_fields scaled_def)
  then show ?thesis by simp
qed

lemma Float_fmt_examples:
  "Float_fmt f64_1e21 64 = 0x65" "Float_fmt f64_9999e17 64 = 0x66" "Float_fmt f64_15e_8 64 = 0x65"
  by (simp_all add: Float_fmt_def Let_def f64_eq_def f64_lt_def f64_ge_def f64_isNaN_def
      f64_key_def Abs_fields zero_fields const_fields example_fields)

section \<open>Properties of the Reader\<close>

subsection \<open>The first error of the Reader is kept\<close>

lemma Reader_setError_kept: "rerr c = Some x \<Longrightarrow> Reader_setError c err = c"
  by (simp add: Reader_setError_def)

lemma setErrorf_kept: "rerr c = Some x \<Longrightarrow> setErrorf c msg = c"
  by (simp add: setErrorf_def)

lemma setErrorExpected_kept: "rerr c = Some x \<Longrightarrow> setErrorExpected c expected = c"
  by (simp add: setErrorExpected_def Reader_setError_def)

lemma next_kept: "rerr c = Some x \<Longrightarrow> rerr (snd (next c)) = Some x"
  by (simp add: next_def Let_def Reader_setError_def split: prod.splits option.splits)

lemma next_kept': "rerr c = Some x \<Longrightarrow> next c = (t, c1) \<Longrightarrow> rerr c1 = Some x"
  using next_kept [of c x] by simp

lemma Reader_call_kept:
  assumes "rerr c = Some x" and "Reader_call c m = Inr c1"
  shows "rerr c1 = Some x"
proof (cases m)
  case R_More
  with assms show ?thesis
    by (auto simp: More_def popDelim_def Let_def setErrorExpected_kept
        split: if_splits sum.splits prod.splits Token.splits dest: next_kept')
qed (use assms in \<open>auto simp: Reader_Key_def ObjectStart_def ArrayStart_def pushDelim_def
      Reader_Int_def Reader_Uint_def Reader_Float_def Reader_Bool_def Reader_Str_def
      Reader_Blob_def Discard_def setErrorExpected_kept Reader_setError_kept setErrorf_kept
      split: if_splits prod.splits Token.splits option.splits dest: next_kept'\<close>)

lemma Reader_calls_kept:
  "rerr c = Some x \<Longrightarrow> Reader_calls c ms = Inr c1 \<Longrightarrow> rerr c1 = Some x"
proof (induction ms arbitrary: c)
  case Nil
  then show ?case by simp
next
  case (Cons m ms)
  then show ?case
    by (auto split: sum.splits dest: Reader_call_kept)
qed

lemma popDelim_adds_no_error:
  "popDelim c = Inr c1 \<Longrightarrow> rerr c1 = rerr (snd (next c))"
  by (auto simp: popDelim_def Let_def split: prod.splits Token.splits if_splits)

lemma f64_one: "f64_to_int64 0x3FF0000000000000 = 1"
  by (simp add: f64_to_int64_def f64_trunc_def Let_def f64_exp_def f64_mant_def f64_sign_def)

lemma f64_two: "f64_to_int64 0x4000000000000000 = 2"
  by (simp add: f64_to_int64_def f64_trunc_def Let_def f64_exp_def f64_mant_def f64_sign_def)

lemma next_pending: "pending (rd (snd (next c))) = tl (pending (rd c))"
  by (simp add: next_def Decoder_Token_def Reader_setError_def Let_def
      split: list.splits sum.splits)

lemma setErrorExpected_sets: "rerr (setErrorExpected c expected) \<noteq> None"
  by (simp add: setErrorExpected_def Reader_setError_def Let_def)

lemma setErrorExpected_rd: "rd (setErrorExpected c expected) = rd c"
  by (simp add: setErrorExpected_def Reader_setError_def Let_def)
section \<open>String escaping\<close>


lemma DecodeRune_size_le: "p \<noteq> [] \<Longrightarrow> snd (DecodeRune p) \<le> length p"
  by (cases p)
     (auto simp: DecodeRune_def utf8_first_def Let_def Suc_le_eq
       split: option.splits if_splits)

lemma Buffer_update_eq: "e' = e\<lparr>Buffer := b\<rparr> \<Longrightarrow> e'\<lparr>Buffer := x\<rparr> = e\<lparr>Buffer := x\<rparr>"
  by simp

lemma esc_Nil [simp]: "esc [] = []"
  by (subst esc.simps) simp

lemma take_drop_step:
  assumes "st \<le> i" and "i + n \<le> length s"
  shows "take (i - st) (drop st s) @ take n (drop i s) = take (i + n - st) (drop st s)"
proof -
  have "take (i + n - st) (drop st s) = take ((i - st) + n) (drop st s)"
    using assms by simp
  also have "\<dots> = take (i - st) (drop st s) @ take n (drop (i - st) (drop st s))"
    by (rule take_add)
  also have "drop (i - st) (drop st s) = drop i s"
    using assms by simp
  finally show ?thesis by simp
qed

lemma loop_esc:
  assumes "st \<le> i" and "i \<le> length s"
    and "esc (drop st s) = take (i - st) (drop st s) @ esc (drop i s)"
  shows "case WriteJsonString_loop s st i e of (e', st') \<Rightarrow>
           st' \<le> length s \<and> e' = e\<lparr>Buffer := Buffer e'\<rparr> \<and>
           Buffer e' @ drop st' s = Buffer e @ esc (drop st s)"
  using assms
proof (induction "length s - i" arbitrary: st i e rule: less_induct)
  case less
  note run = less.prems(3)
  show ?case
  proof (cases "i < length s")
    case False
    with less.prems have "i = length s" by simp
    with less.prems run show ?thesis
      by (subst WriteJsonString_loop.simps) simp
  next
    case True
    then have ne: "drop i s \<noteq> []" by simp
    have hd: "drop i s ! 0 = s ! i" using True by simp
    define flush where "flush = (if st < i then Write e (take (i - st) (drop st s)) else e)"
    have flush: "Buffer flush = Buffer e @ take (i - st) (drop st s)" "flush = e\<lparr>Buffer := Buffer flush\<rparr>"
      using less.prems(1) by (auto simp: flush_def Write_def)
    show ?thesis
    proof (cases "s ! i < 0x80")
      case ascii: True
      have e1: "esc (drop i s) = (if jsonSafeSet (s ! i) then [s ! i] else esc_byte (s ! i)) @ esc (drop (Suc i) s)"
        using ne ascii hd by (subst esc.simps) (simp add: Let_def)
      show ?thesis
      proof (cases "jsonSafeSet (s ! i)")
        case safe: True
        have "take (i - st) (drop st s) @ [s ! i] = take (Suc i - st) (drop st s)"
          using take_drop_step [of st i 1 s] less.prems(1) True
          by (simp add: take_Suc_conv_app_nth)
        then have run': "esc (drop st s) = take (Suc i - st) (drop st s) @ esc (drop (Suc i) s)"
          using run e1 safe by simp
        have "case WriteJsonString_loop s st (Suc i) e of (e', st') \<Rightarrow>
               st' \<le> length s \<and> e' = e\<lparr>Buffer := Buffer e'\<rparr> \<and>
               Buffer e' @ drop st' s = Buffer e @ esc (drop st s)"
          using True less.prems(1) by (intro less.hyps run') simp_all
        moreover have "WriteJsonString_loop s st i e = WriteJsonString_loop s st (Suc i) e"
          using True ascii safe by (subst WriteJsonString_loop.simps) (simp add: Let_def)
        ultimately show ?thesis by simp
      next
        case unsafe: False
        define e3 where "e3 = flush\<lparr>Buffer := Buffer flush @ esc_byte (s ! i)\<rparr>"
        have step: "WriteJsonString_loop s st i e = WriteJsonString_loop s (Suc i) (Suc i) e3"
          using True ascii unsafe
          by (subst WriteJsonString_loop.simps)
             (auto simp: Let_def e3_def flush_def esc_byte_def Write_def WriteByte_def B_def)
        have "case WriteJsonString_loop s (Suc i) (Suc i) e3 of (e', st') \<Rightarrow>
               st' \<le> length s \<and> e' = e3\<lparr>Buffer := Buffer e'\<rparr> \<and>
               Buffer e' @ drop st' s = Buffer e3 @ esc (drop (Suc i) s)"
          using True by (intro less.hyps) simp_all
        moreover have "Buffer e3 @ esc (drop (Suc i) s) = Buffer e @ esc (drop st s)"
          using run e1 unsafe flush by (simp add: e3_def)
        moreover have "e3\<lparr>Buffer := x\<rparr> = e\<lparr>Buffer := x\<rparr>" for x
          using Buffer_update_eq [OF flush(2)] by (simp add: e3_def)
        ultimately show ?thesis unfolding step by (auto split: prod.splits)
      qed
    next
      case multi: False
      obtain c n where d: "DecodeRune (drop i s) = (c, n)" by (cases "DecodeRune (drop i s)")
      have npos: "0 < n" using DecodeRune_size_pos [OF ne] d by simp
      have nle: "i + n \<le> length s" using DecodeRune_size_le [OF ne] d True by simp
      have e1: "esc (drop i s) =
          (if c = RuneError \<and> n = 1 then 0x5C # B ''ufffd'' @ esc (drop (i + n) s)
           else if c = 0x2028 \<or> c = 0x2029 then
             0x5C # B ''u202'' @ [hexdigits ! unat (c AND 0xF)] @ esc (drop (i + n) s)
           else take n (drop i s) @ esc (drop (i + n) s))"
        using ne multi hd d by (subst esc.simps) (simp add: Let_def add.commute)
      show ?thesis
      proof (cases "c = RuneError \<and> n = 1 \<or> c = 0x2028 \<or> c = 0x2029")
        case special: True
        define out where "out = (if c = RuneError \<and> n = 1 then 0x5C # B ''ufffd''
            else 0x5C # B ''u202'' @ [hexdigits ! unat (c AND 0xF)])"
        define e3 where "e3 = flush\<lparr>Buffer := Buffer flush @ out\<rparr>"
        have step: "WriteJsonString_loop s st i e = WriteJsonString_loop s (i + n) (i + n) e3"
          using True multi special d
          by (subst WriteJsonString_loop.simps)
             (auto simp: Let_def e3_def out_def flush_def Write_def WriteByte_def B_def)
        have "case WriteJsonString_loop s (i + n) (i + n) e3 of (e', st') \<Rightarrow>
               st' \<le> length s \<and> e' = e3\<lparr>Buffer := Buffer e'\<rparr> \<and>
               Buffer e' @ drop st' s = Buffer e3 @ esc (drop (i + n) s)"
          using True npos nle by (intro less.hyps) simp_all
        moreover have "Buffer e3 @ esc (drop (i + n) s) = Buffer e @ esc (drop st s)"
          using run e1 special flush by (auto simp: e3_def out_def)
        moreover have "e3\<lparr>Buffer := x\<rparr> = e\<lparr>Buffer := x\<rparr>" for x
          using Buffer_update_eq [OF flush(2)] by (simp add: e3_def)
        ultimately show ?thesis unfolding step by (auto split: prod.splits)
      next
        case plain: False
        have run': "esc (drop st s) = take (i + n - st) (drop st s) @ esc (drop (i + n) s)"
          using run e1 plain take_drop_step [OF less.prems(1) nle] by auto
        have "case WriteJsonString_loop s st (i + n) e of (e', st') \<Rightarrow>
               st' \<le> length s \<and> e' = e\<lparr>Buffer := Buffer e'\<rparr> \<and>
               Buffer e' @ drop st' s = Buffer e @ esc (drop st s)"
          using True npos nle less.prems(1) by (intro less.hyps run') simp_all
        moreover have "WriteJsonString_loop s st i e = WriteJsonString_loop s st (i + n) e"
          using True multi plain d by (subst WriteJsonString_loop.simps) (auto simp: Let_def)
        ultimately show ?thesis by simp
      qed
    qed
  qed
qed

lemma WriteJsonString_esc: "WriteJsonString e s = Write e ([0x22] @ esc s @ [0x22])"
proof -
  obtain e' st' where l: "WriteJsonString_loop s 0 0 (WriteByte e 0x22) = (e', st')"
    by (cases "WriteJsonString_loop s 0 0 (WriteByte e 0x22)")
  have "case WriteJsonString_loop s 0 0 (WriteByte e 0x22) of (e', st') \<Rightarrow>
           st' \<le> length s \<and> e' = (WriteByte e 0x22)\<lparr>Buffer := Buffer e'\<rparr> \<and>
           Buffer e' @ drop st' s = Buffer (WriteByte e 0x22) @ esc (drop 0 s)"
    by (rule loop_esc) simp_all
  then have a: "e' = e\<lparr>Buffer := Buffer e'\<rparr>" "Buffer e' @ drop st' s = Buffer e @ [0x22] @ esc s"
    unfolding l by (simp_all add: WriteByte_def)
  have "Buffer (if st' < length s then Write e' (drop st' s) else e') = Buffer e' @ drop st' s"
    by (simp add: Write_def)
  moreover have "(if st' < length s then Write e' (drop st' s) else e')\<lparr>Buffer := x\<rparr>
      = e\<lparr>Buffer := x\<rparr>" for x
    using Buffer_update_eq [OF a(1)] by (simp add: Write_def)
  ultimately show ?thesis
    unfolding WriteJsonString_def l using a(2)
    by (simp add: WriteByte_def Write_def)
qed



lemma unesc_plain:
  "c \<noteq> 0x5C \<Longrightarrow> \<not> c < 0x20 \<Longrightarrow> c \<noteq> 0x22 \<Longrightarrow> unesc (c # cs) = map_option ((#) c) (unesc cs)"
  by (simp add: unesc.simps(2))

lemma unesc_high:
  "(\<And>c. c \<in> set xs \<Longrightarrow> 0x80 \<le> c) \<Longrightarrow> unesc (xs @ ys) = map_option ((@) xs) (unesc ys)"
proof (induction xs)
  case Nil
  show ?case by (simp add: option.map_ident)
next
  case (Cons x xs)
  then have x: "0x80 \<le> x" by simp
  then have "128 \<le> unat x" by (simp add: word_le_nat_alt)
  then have "x \<noteq> 0x5C" "\<not> x < 0x20" "x \<noteq> 0x22"
    by (auto simp: word_less_nat_alt)
  then have "unesc ((x # xs) @ ys) = map_option ((#) x) (unesc (xs @ ys))"
    by (simp add: unesc_plain)
  also have "\<dots> = map_option ((#) x) (map_option ((@) xs) (unesc ys))"
    using Cons by simp
  finally show ?case by (simp add: option.map_comp comp_def)
qed

lemma append_single: "(@) [x] = (#) x"
  by (rule ext) simp

lemma unesc_esc_control:
  assumes "k < 32"
  shows "unesc (esc_byte (of_nat k) @ rest) = map_option ((#) (of_nat k)) (unesc rest)"
proof -
  from assms have "k = 0 \<or> k = 1 \<or> k = 2 \<or> k = 3 \<or> k = 4 \<or> k = 5 \<or> k = 6 \<or> k = 7 \<or>
    k = 8 \<or> k = 9 \<or> k = 10 \<or> k = 11 \<or> k = 12 \<or> k = 13 \<or> k = 14 \<or> k = 15 \<or> k = 16 \<or>
    k = 17 \<or> k = 18 \<or> k = 19 \<or> k = 20 \<or> k = 21 \<or> k = 22 \<or> k = 23 \<or> k = 24 \<or> k = 25 \<or>
    k = 26 \<or> k = 27 \<or> k = 28 \<or> k = 29 \<or> k = 30 \<or> k = 31"
    by arith
  then show ?thesis
    by (elim disjE)
       (simp_all add: esc_byte_def unesc.simps(2) hexdigits_def B_def hexval_def runeString_def
         append_single)
qed

lemma unesc_esc_byte:
  assumes "b < 0x80" and "\<not> jsonSafeSet b"
  shows "unesc (esc_byte b @ rest) = map_option ((#) b) (unesc rest)"
proof (cases "b < 0x20")
  case False
  with assms have "b = 0x22 \<or> b = 0x5C" by (auto simp: jsonSafeSet_def)
  then show ?thesis by (auto simp: esc_byte_def unesc.simps(2))
next
  case True
  then have "unat b < 32" by (simp add: word_less_nat_alt)
  from unesc_esc_control [OF this, of rest] show ?thesis by simp
qed


lemma utf8_first_Some:
  assumes "utf8_first p0 = Some (sz, lo, hi)"
  shows "(sz = 2 \<or> sz = 3 \<or> sz = 4) \<and> 0x80 \<le> lo \<and> hi \<le> 0xBF \<and> 0xC2 \<le> p0"
  using assms by (auto simp: utf8_first_def split: if_splits)

lemma DecodeRune_multi:
  assumes "s \<noteq> []" and "\<not> s ! 0 < 0x80" and "DecodeRune s = (c, n)"
    and "\<not> (c = RuneError \<and> n = 1)"
  shows "n \<le> length s \<and> (\<forall>j < n. 0x80 \<le> s ! j) \<and> (n = 2 \<or> n = 3 \<or> n = 4)"
proof -
  obtain sz lo hi where f: "utf8_first (s ! 0) = Some (sz, lo, hi)"
    using assms by (cases "utf8_first (s ! 0)") (auto simp: DecodeRune_def Let_def)
  note u = utf8_first_Some [OF f]
  have p0: "0x80 \<le> s ! 0" using assms(2) by simp
  have len: "sz \<le> length s"
    using assms f by (auto simp: DecodeRune_def Let_def split: if_splits)
  have b1: "0x80 \<le> s ! 1"
    using assms f u by (auto simp: DecodeRune_def Let_def split: if_splits)
  show ?thesis
  proof (cases "sz \<le> 2")
    case True
    with assms f have "n = 2" by (auto simp: DecodeRune_def Let_def split: if_splits)
    moreover have "\<forall>j < 2. 0x80 \<le> s ! j"
    proof (intro allI impI)
      fix j :: nat assume "j < 2"
      then have "j = 0 \<or> j = 1" by arith
      then show "0x80 \<le> s ! j" using p0 b1 by auto
    qed
    ultimately show ?thesis using len True u by auto
  next
    case False
    then have b2: "0x80 \<le> s ! 2"
      using assms f by (auto simp: DecodeRune_def Let_def split: if_splits)
    show ?thesis
    proof (cases "sz \<le> 3")
      case True
      with False assms f have "n = 3" by (auto simp: DecodeRune_def Let_def split: if_splits)
      moreover have "\<forall>j < 3. 0x80 \<le> s ! j"
      proof (intro allI impI)
        fix j :: nat assume "j < 3"
        then have "j = 0 \<or> j = 1 \<or> j = 2" by arith
        then show "0x80 \<le> s ! j" using p0 b1 b2 by auto
      qed
      ultimately show ?thesis using len True False u by auto
    next
      case False
      then have b3: "0x80 \<le> s ! 3"
        using \<open>\<not> sz \<le> 2\<close> assms f by (auto simp: DecodeRune_def Let_def split: if_splits)
      from False \<open>\<not> sz \<le> 2\<close> assms f have "n = 4"
        by (auto simp: DecodeRune_def Let_def split: if_splits)
      moreover have "\<forall>j < 4. 0x80 \<le> s ! j"
      proof (intro allI impI)
        fix j :: nat assume "j < 4"
        then have "j = 0 \<or> j = 1 \<or> j = 2 \<or> j = 3" by arith
        then show "0x80 \<le> s ! j" using p0 b1 b2 b3 by auto
      qed
      ultimately show ?thesis using len False u by auto
    qed
  qed
qed


lemma radix:
  fixes x y b :: nat
  assumes "y < b"
  shows "(x * b + y) div b = x" "(x * b + y) mod b = y"
  using assms by simp_all

lemma three_digits:
  fixes x y z :: nat
  assumes "y < 64" "z < 64" "x * 4096 + y * 64 + z = a * 4096 + b * 64 + c" "b < 64" "c < 64"
  shows "x = a \<and> y = b \<and> z = c"
proof -
  have e: "(x * 64 + y) * 64 + z = (a * 64 + b) * 64 + c"
    using assms(3) by (simp add: algebra_simps)
  have "((x * 64 + y) * 64 + z) div 64 = x * 64 + y" "((x * 64 + y) * 64 + z) mod 64 = z"
    using assms(2) by (rule radix)+
  moreover have "((a * 64 + b) * 64 + c) div 64 = a * 64 + b" "((a * 64 + b) * 64 + c) mod 64 = c"
    using assms(5) by (rule radix)+
  ultimately have xy: "x * 64 + y = a * 64 + b" and z: "z = c"
    unfolding e by simp_all
  have "(x * 64 + y) div 64 = x" "(x * 64 + y) mod 64 = y"
    using assms(1) by (rule radix)+
  moreover have "(a * 64 + b) div 64 = a" "(a * 64 + b) mod 64 = b"
    using assms(4) by (rule radix)+
  ultimately have "x = a" "y = b" unfolding xy by simp_all
  with z show ?thesis by simp
qed

lemma DecodeRune_valid_cases:
  assumes "s \<noteq> []" and "\<not> s ! 0 < 0x80" and "DecodeRune s = (c, n)"
    and "\<not> (c = RuneError \<and> n = 1)"
  shows "(n = 2 \<and> 2 \<le> length s \<and> 194 \<le> unat (s ! 0) \<and> unat (s ! 0) \<le> 223 \<and>
            128 \<le> unat (s ! 1) \<and> unat (s ! 1) \<le> 191 \<and>
            c = of_nat ((unat (s ! 0) - 192) * 64 + (unat (s ! 1) - 128))) \<or>
         (n = 3 \<and> 3 \<le> length s \<and> 224 \<le> unat (s ! 0) \<and> unat (s ! 0) \<le> 239 \<and>
            128 \<le> unat (s ! 1) \<and> unat (s ! 1) \<le> 191 \<and>
            128 \<le> unat (s ! 2) \<and> unat (s ! 2) \<le> 191 \<and>
            c = of_nat ((unat (s ! 0) - 224) * 4096 + (unat (s ! 1) - 128) * 64
                        + (unat (s ! 2) - 128))) \<or>
         (n = 4 \<and> 4 \<le> length s \<and> 240 \<le> unat (s ! 0) \<and> unat (s ! 0) \<le> 244 \<and>
            128 \<le> unat (s ! 1) \<and> unat (s ! 1) \<le> 191 \<and>
            (s ! 0 = 0xF0 \<longrightarrow> 144 \<le> unat (s ! 1)) \<and>
            c = of_nat ((unat (s ! 0) - 240) * 262144 + (unat (s ! 1) - 128) * 4096
                        + (unat (s ! 2) - 128) * 64 + (unat (s ! 3) - 128)))"
  using assms
  by (auto simp: DecodeRune_def utf8_first_def Let_def word_le_nat_alt word_less_nat_alt
      split: if_splits)


lemma rune_unat: "k < 4294967296 \<Longrightarrow> unat (of_nat k :: rune) = k"
  by (simp add: unat_of_nat)

lemma unat_byte_less: "unat (b :: byte) < 256"
  using unsigned_less [of b, where 'a = nat] by simp

lemma DecodeRune_sep:
  assumes "s \<noteq> []" and "\<not> s ! 0 < 0x80" and "DecodeRune s = (c, n)"
    and "c = 0x2028 \<or> c = 0x2029"
  shows "n = 3 \<and> 3 \<le> length s \<and> s ! 0 = 0xE2 \<and> s ! 1 = 0x80 \<and>
         s ! 2 = (if c = 0x2028 then 0xA8 else 0xA9)"
proof -
  have uc: "unat c = 8232 \<or> unat c = 8233" using assms(4) by auto
  have "\<not> (c = RuneError \<and> n = 1)" using assms(4) by (auto simp: RuneError_def)
  from DecodeRune_valid_cases [OF assms(1-3) this]
  consider
    (two) "unat (s ! 0) \<le> 223" "unat (s ! 1) \<le> 191"
      "c = of_nat ((unat (s ! 0) - 192) * 64 + (unat (s ! 1) - 128))"
  | (three) "n = 3" "3 \<le> length s" "224 \<le> unat (s ! 0)" "unat (s ! 0) \<le> 239"
      "128 \<le> unat (s ! 1)" "unat (s ! 1) \<le> 191" "128 \<le> unat (s ! 2)" "unat (s ! 2) \<le> 191"
      "c = of_nat ((unat (s ! 0) - 224) * 4096 + (unat (s ! 1) - 128) * 64 + (unat (s ! 2) - 128))"
  | (four) "240 \<le> unat (s ! 0)" "unat (s ! 0) \<le> 244" "128 \<le> unat (s ! 1)"
      "s ! 0 = 0xF0 \<longrightarrow> 144 \<le> unat (s ! 1)"
      "c = of_nat ((unat (s ! 0) - 240) * 262144 + (unat (s ! 1) - 128) * 4096
                        + (unat (s ! 2) - 128) * 64 + (unat (s ! 3) - 128))"
    by blast
  then show ?thesis
  proof cases
    case two
    define k where "k = (unat (s ! 0) - 192) * 64 + (unat (s ! 1) - 128)"
    have "k < 2048" using two(1,2) unfolding k_def by arith
    then have "unat c = k" using two(3) rune_unat [of k] by (simp add: k_def)
    with \<open>k < 2048\<close> uc show ?thesis by simp
  next
    case four
    define k where "k = (unat (s ! 0) - 240) * 262144 + (unat (s ! 1) - 128) * 4096
                        + (unat (s ! 2) - 128) * 64 + (unat (s ! 3) - 128)"
    have b: "unat (s ! 1) < 256" "unat (s ! 2) < 256" "unat (s ! 3) < 256"
      by (rule unat_byte_less)+
    have up: "k < 4294967296" using four(2) b unfolding k_def by arith
    have lo: "65536 \<le> k"
    proof (cases "s ! 0 = 0xF0")
      case True
      with four(4) have "144 \<le> unat (s ! 1)" by simp
      then show ?thesis unfolding k_def by arith
    next
      case False
      then have "unat (s ! 0) \<noteq> 240" by (simp add: word_unat_eq_iff)
      with four(1) have "241 \<le> unat (s ! 0)" by simp
      then show ?thesis unfolding k_def by arith
    qed
    have "unat c = k" using four(5) rune_unat [OF up] by (simp add: k_def)
    with lo uc show ?thesis by simp
  next
    case three
    define x where "x = unat (s ! 0) - 224"
    define y where "y = unat (s ! 1) - 128"
    define z where "z = unat (s ! 2) - 128"
    have yz: "y < 64" "z < 64" "x \<le> 15" using three(4,6,8) by (simp_all add: x_def y_def z_def)
    have "x * 4096 + y * 64 + z < 4294967296" using yz by arith
    then have u: "unat c = x * 4096 + y * 64 + z"
      using three(9) rune_unat [of "x * 4096 + y * 64 + z"] by (simp add: x_def y_def z_def)
    from uc have "x = 2 \<and> y = 0 \<and> (z = 40 \<or> z = 41) \<and> (z = 40 \<longleftrightarrow> c = 0x2028)"
    proof
      assume a: "unat c = 8232"
      then have "x * 4096 + y * 64 + z = 2 * 4096 + 0 * 64 + 40" using u by simp
      from three_digits [OF yz(1,2) this] have "x = 2 \<and> y = 0 \<and> z = 40" by simp
      moreover have "c = 0x2028" using a by (simp add: word_unat_eq_iff)
      ultimately show ?thesis by simp
    next
      assume a: "unat c = 8233"
      then have "x * 4096 + y * 64 + z = 2 * 4096 + 0 * 64 + 41" using u by simp
      from three_digits [OF yz(1,2) this] have "x = 2 \<and> y = 0 \<and> z = 41" by simp
      moreover have "c \<noteq> 0x2028" using a by (auto simp: word_unat_eq_iff)
      ultimately show ?thesis by simp
    qed
    then have "unat (s ! 0) = 226" "unat (s ! 1) = 128"
      "unat (s ! 2) = (if c = 0x2028 then 168 else 169)"
      using three(3,5,7) by (auto simp: x_def y_def z_def)
    then have "s ! 0 = 0xE2" "s ! 1 = 0x80" "s ! 2 = (if c = 0x2028 then 0xA8 else 0xA9)"
      by (auto simp: word_unat_eq_iff split: if_splits)
    with three(1,2) show ?thesis by simp
  qed
qed


lemma ucast_byte_rune: "unat (ucast (b :: byte) :: rune) = unat b"
  by (simp add: unsigned_ucast_eq take_bit_nat_eq_self unat_byte_less less_trans [OF unat_byte_less])

lemma nth_drop_decomp3:
  assumes "3 \<le> length s"
  shows "s = [s ! 0, s ! 1, s ! 2] @ drop 3 s"
proof -
  obtain a b c r where "s = a # b # c # r"
    using assms by (cases s; cases "tl s"; cases "tl (tl s)") auto
  then show ?thesis by simp
qed


lemma br_pre:
  assumes ne: "s \<noteq> []" and d: "DecodeRune s = (c, n)" and vs: "ValidString s"
  shows "\<not> (c = RuneError \<and> n = 1)" "ValidString (drop n s)"
  using vs ne d by (subst (asm) ValidString.simps, simp)+

lemma br_ascii:
  assumes ne: "s \<noteq> []" and ascii: "s ! 0 < 0x80"
    and IH: "unesc (esc (drop 1 s)) = Some (drop 1 s)"
  shows "unesc (esc s) = Some s"
proof -
  have e: "esc s = (if jsonSafeSet (s ! 0) then [s ! 0] else esc_byte (s ! 0)) @ esc (drop 1 s)"
    using ne ascii by (subst esc.simps) (simp add: Let_def)
  have "unesc (esc s) = Some (s ! 0 # drop 1 s)"
  proof (cases "jsonSafeSet (s ! 0)")
    case True
    then have "s ! 0 \<noteq> 0x5C" "\<not> s ! 0 < 0x20" "s ! 0 \<noteq> 0x22"
      by (auto simp: jsonSafeSet_def)
    then have "unesc (s ! 0 # esc (drop 1 s)) = map_option ((#) (s ! 0)) (unesc (esc (drop 1 s)))"
      by (rule unesc_plain)
    then show ?thesis unfolding e IH using True by simp
  next
    case False
    show ?thesis unfolding e using False unesc_esc_byte [OF ascii False, of "esc (drop 1 s)"] IH
      by simp
  qed
  also have "s ! 0 # drop 1 s = s" using ne by (cases s) simp_all
  finally show ?thesis .
qed

lemma unesc_sep_28:
  "unesc (0x5C # B ''u202'' @ [hexdigits ! unat ((0x2028 :: rune) AND 0xF)] @ t)
     = map_option ((@) [0xE2, 0x80, 0xA8]) (unesc t)"
  by (simp add: unesc.simps(2) hexdigits_def B_def hexval_def runeString_def)

lemma unesc_sep_29:
  "unesc (0x5C # B ''u202'' @ [hexdigits ! unat ((0x2029 :: rune) AND 0xF)] @ t)
     = map_option ((@) [0xE2, 0x80, 0xA9]) (unesc t)"
  by (simp add: unesc.simps(2) hexdigits_def B_def hexval_def runeString_def)

lemma br_sep:
  assumes ne: "s \<noteq> []" and multi: "\<not> s ! 0 < 0x80" and d: "DecodeRune s = (c, n)"
    and v: "\<not> (c = RuneError \<and> n = 1)"
    and sepc: "c = 0x2028 \<or> c = 0x2029"
    and IH: "unesc (esc (drop n s)) = Some (drop n s)"
  shows "unesc (esc s) = Some s"
proof -
  note sep = DecodeRune_sep [OF ne multi d sepc]
  have n3: "n = 3" and l3: "3 \<le> length s" and b0: "s ! 0 = 0xE2" and b1: "s ! 1 = 0x80"
    and b2: "s ! 2 = (if c = 0x2028 then 0xA8 else 0xA9)"
    using sep by simp_all
  have e: "esc s = 0x5C # B ''u202'' @ [hexdigits ! unat (c AND 0xF)] @ esc (drop n s)"
    using ne multi d v sepc by (subst esc.simps) (auto simp: Let_def)
  have "unesc (esc s) = map_option ((@) [s ! 0, s ! 1, s ! 2]) (unesc (esc (drop n s)))"
  proof (cases "c = 0x2028")
    case True
    have b2': "s ! 2 = 0xA8" using b2 True by simp
    show ?thesis unfolding e b0 b1 b2' unfolding True by (simp only: unesc_sep_28)
  next
    case False
    then have c: "c = 0x2029" using sepc by simp
    have b2': "s ! 2 = 0xA9" using b2 False by simp
    show ?thesis unfolding e b0 b1 b2' unfolding c by (simp only: unesc_sep_29)
  qed
  also have "\<dots> = Some ([s ! 0, s ! 1, s ! 2] @ drop 3 s)"
    using IH n3 by simp
  also have "[s ! 0, s ! 1, s ! 2] @ drop 3 s = s"
    using nth_drop_decomp3 [OF l3] by (rule sym)
  finally show ?thesis .
qed

lemma br_plain:
  assumes ne: "s \<noteq> []" and multi: "\<not> s ! 0 < 0x80" and d: "DecodeRune s = (c, n)"
    and v: "\<not> (c = RuneError \<and> n = 1)"
    and nsep: "\<not> (c = 0x2028 \<or> c = 0x2029)"
    and IH: "unesc (esc (drop n s)) = Some (drop n s)"
  shows "unesc (esc s) = Some s"
proof -
  note m = DecodeRune_multi [OF ne multi d v]
  have e: "esc s = take n s @ esc (drop n s)"
    using ne multi d v nsep by (subst esc.simps) (auto simp: Let_def)
  have "\<And>x. x \<in> set (take n s) \<Longrightarrow> 0x80 \<le> x"
    using m by (auto simp: in_set_conv_nth)
  then have "unesc (take n s @ esc (drop n s)) = map_option ((@) (take n s)) (unesc (esc (drop n s)))"
    by (rule unesc_high)
  then show ?thesis unfolding e IH by simp
qed

lemma unesc_esc: "ValidString s \<Longrightarrow> unesc (esc s) = Some s"
proof (induction "length s" arbitrary: s rule: less_induct)
  case less
  show ?case
  proof (cases "s = []")
    case True
    then show ?thesis by simp
  next
    case ne: False
    obtain c n where d: "DecodeRune s = (c, n)" by (cases "DecodeRune s")
    have npos: "0 < n" using DecodeRune_size_pos [OF ne] d by simp
    note v = br_pre [OF ne d less.prems]
    have "length (drop n s) < length s" using ne npos by (cases s) simp_all
    then have IH: "unesc (esc (drop n s)) = Some (drop n s)"
      using v(2) by (rule less.hyps)
    show ?thesis
    proof (cases "s ! 0 < 0x80")
      case ascii: True
      have n1: "n = 1" using d ne ascii by (auto simp: DecodeRune_def Let_def)
      show ?thesis using br_ascii [OF ne ascii] IH n1 by simp
    next
      case multi: False
      show ?thesis
      proof (cases "c = 0x2028 \<or> c = 0x2029")
        case True
        show ?thesis by (rule br_sep [OF ne multi d v(1) True IH])
      next
        case False
        show ?thesis by (rule br_plain [OF ne multi d v(1) False IH])
      qed
    qed
  qed
qed

text \<open>
  A byte that starts no well-formed UTF-8 sequence is written as the escape of U+FFFD,
  whatever the byte was: two strings that differ in such a byte have the same text.
\<close>

lemma esc_invalid_byte_FF: "esc [0xFF] = 0x5C # B ''ufffd''"
  by (subst esc.simps) (simp add: DecodeRune_def utf8_first_def Let_def RuneError_def)

lemma esc_invalid_byte_FE: "esc [0xFE] = 0x5C # B ''ufffd''"
  by (subst esc.simps) (simp add: DecodeRune_def utf8_first_def Let_def RuneError_def)

lemma Str_invalid_utf8_collision:
  "Buffer (Str newBuilder [0xFF]) = Buffer (Str newBuilder [0xFE]) \<and>
   Buffer (Str newBuilder [0xFF]) = [0x22, 0x5C] @ B ''ufffd'' @ [0x22]"
  by (simp add: Str_def WriteJsonString_esc Write_def startChunk_def newBuilder_def
        esc_invalid_byte_FF esc_invalid_byte_FE)


section \<open>The claims\<close>

text \<open>
  C5. Calling \<^verbatim>\<open>End('}')\<close> right after \<^verbatim>\<open>Key\<close>, with no value in between, always sets the
  error "key without value" and still writes the closing byte: whatever the Builder
  \<open>e\<close> and the key \<open>k\<close>, the error after the two calls is that one and the buffer is the
  buffer after \<^verbatim>\<open>Key\<close> followed by the brace. For \<^verbatim>\<open>StartObject\<close>, \<^verbatim>\<open>Key("foo")\<close>,
  \<^verbatim>\<open>EndObject\<close> on a new Builder the error is set and the output is \<^verbatim>\<open>{"foo":}\<close>, which
  ends in the brace.
\<close>

theorem End_after_Key:
  \<open>Err (End (Key e k) 0x7D) = Some (Errorf (B ''key without value'')) \<and>
   Buffer (End (Key e k) 0x7D) = Buffer (Key e k) @ [0x7D] \<and>
   Err (EndObject (Key (StartObject newBuilder) (B ''foo''))) = Some (Errorf (B ''key without value'')) \<and>
   Buffer (EndObject (Key (StartObject newBuilder) (B ''foo''))) = B ''{"foo":}''\<close>
proof -
  have 1: "Err (End (Key e k) 0x7D) = Some (Errorf (B ''key without value''))"
    by (simp add: End_def Let_def WriteByte_def)
  have 2: "Buffer (End (Key e k) 0x7D) = Buffer (Key e k) @ [0x7D]"
    by (simp add: End_def Let_def WriteByte_def)
  have 3: "Err (EndObject (Key (StartObject newBuilder) (B ''foo''))) = Some (Errorf (B ''key without value''))"
    by (simp add: EndObject_def End_def Let_def WriteByte_def)
  have 4: \<open>Buffer (EndObject (Key (StartObject newBuilder) (B ''foo''))) = B ''{"foo":}''\<close>
    by code_simp
  from 1 2 3 4 show ?thesis by blast
qed

text \<open>
  C3. \<^verbatim>\<open>Builder.Int\<close> and \<^verbatim>\<open>Builder.Uint\<close> write, after the punctuation that starts a
  chunk, the decimal representation of their 64-bit argument: between double quotes
  when \<open>bitsize > 32\<close>, bare when \<open>bitsize \<le> 32\<close>, by the same rule in both. The
  representation is that of the argument: read back as a numeral, it is the argument's
  signed value for \<^verbatim>\<open>Int\<close> and its unsigned value for \<^verbatim>\<open>Uint\<close>.
\<close>

theorem Int_Uint_encoding:
  "Builder_Int e v bitsize =
     Write (startChunk e builderValue)
       (if bitsize > 32 then [0x22] @ FormatInt v @ [0x22] else FormatInt v) \<and>
   Builder_Uint e u bitsize =
     Write (startChunk e builderValue)
       (if bitsize > 32 then [0x22] @ FormatUint u @ [0x22] else FormatUint u) \<and>
   numeral_value (FormatInt v) = sint v \<and> numeral_value (FormatUint u) = uint u"
  by (simp add: Builder_Int_def Builder_Uint_def Let_def WriteJsonString_safe FormatInt_safe
      FormatUint_safe numeral_value_FormatInt numeral_value_FormatUint)

theorem Int_Uint_encoding_witness:
  \<open>Buffer (Builder_Int newBuilder (- 42) 64) = B ''"-42"'' \<and>
   Buffer (Builder_Int newBuilder (- 42) 32) = B ''-42'' \<and>
   Buffer (Builder_Uint newBuilder 18446744073709551615 33) = B ''"18446744073709551615"'' \<and>
   Buffer (Builder_Uint newBuilder 18446744073709551615 8) = B ''18446744073709551615''\<close>
  using Int_Uint_encoding [of newBuilder "- 42" 64 18446744073709551615]
    Int_Uint_encoding [of newBuilder "- 42" 32 18446744073709551615]
    Int_Uint_encoding [of newBuilder "- 42" 33 18446744073709551615]
    Int_Uint_encoding [of newBuilder "- 42" 8 18446744073709551615]
  by (simp add: FormatInt_minus_42 FormatUint_max startChunk_newBuilder B_def)

text \<open>
  C10. For every \<open>bitsize \<le> 32\<close>, \<^verbatim>\<open>Builder.Int\<close> and \<^verbatim>\<open>Builder.Uint\<close> write the whole
  decimal representation of their 64-bit argument as a bare number, whatever the
  argument, and leave the error as it was: the argument is not checked against the
  stated width. The bit size matters only through the test \<open>bitsize > 32\<close>: two bit
  sizes on the same side of it give the same Builder. The witness is \<^verbatim>\<open>Int(2^40, 32)\<close>.
\<close>

theorem Int_Uint_no_range_check:
  assumes "bitsize \<le> 32"
  shows "Builder_Int e v bitsize = Write (startChunk e builderValue) (FormatInt v) \<and>
         Builder_Uint e u bitsize = Write (startChunk e builderValue) (FormatUint u) \<and>
         Err (Builder_Int e v bitsize) = Err e \<and> Err (Builder_Uint e u bitsize) = Err e \<and>
         numeral_value (FormatInt v) = sint v \<and> numeral_value (FormatUint u) = uint u \<and>
         (\<forall>bitsize'. (bitsize' > 32) = (bitsize > 32) \<longrightarrow>
            Builder_Int e v bitsize' = Builder_Int e v bitsize \<and>
            Builder_Uint e u bitsize' = Builder_Uint e u bitsize)"
  using assms
  by (simp add: Builder_Int_def Builder_Uint_def Let_def numeral_value_FormatInt
      numeral_value_FormatUint)

theorem Int_Uint_no_range_check_witness:
  "(32 :: int) \<le> 32 \<and>
   Buffer (Builder_Int newBuilder 1099511627776 32) = B ''1099511627776'' \<and>
   Buffer (Builder_Uint newBuilder 1099511627776 32) = B ''1099511627776'' \<and>
   Err (Builder_Int newBuilder 1099511627776 32) = None \<and>
   Err (Builder_Uint newBuilder 1099511627776 32) = None \<and>
   Builder_Int newBuilder 1099511627776 8 = Builder_Int newBuilder 1099511627776 32"
  using Int_Uint_no_range_check [of 32 newBuilder 1099511627776 1099511627776]
  by (simp add: FormatInt_2_40 FormatUint_2_40 startChunk_newBuilder)
     (simp add: newBuilder_def)

text \<open>
  C2. The claim is that neither component ever replaces its first error. The Reader
  keeps it through every call (\<open>Reader_calls_kept\<close>), and so does the Builder through
  every call but \<^verbatim>\<open>End\<close> (\<open>Builder_calls_kept\<close>). \<^verbatim>\<open>End\<close> assigns \<open>Err\<close> without looking
  at it: after \<^verbatim>\<open>StartObject\<close>, \<^verbatim>\<open>Key("a")\<close>, \<^verbatim>\<open>Float(NaN, 64)\<close>, \<^verbatim>\<open>Key("b")\<close> the error is
  the one of the NaN, and \<^verbatim>\<open>EndObject\<close> replaces it by "key without value".
\<close>

theorem End_overwrites_first_error:
  "(case builder_failed of
      Inl p \<Rightarrow> False
    | Inr e \<Rightarrow>
        Err e = Some (Errorf (B ''unsupported float64 value NaN'')) \<and>
        Err (EndObject e) = Some (Errorf (B ''key without value'')))"
  by (simp add: builder_failed_def Float_def Let_def IsNaN_f64_NaN FormatFloat_def AppendFloat_def
      FormatFloat_NaN setError_def EndObject_def End_replaces_error Key_def KeyBytes_def
      StartObject_def Start_def newBuilder_def B_def)

text \<open>
  C4. The claim is that reading \<^verbatim>\<open>[1,2}\<close> sets an error naming \<^verbatim>\<open>]\<close> when \<^verbatim>\<open>More\<close> reaches
  the end of the array. On the token stream \<^verbatim>\<open>[\<close>, \<^verbatim>\<open>1\<close>, \<^verbatim>\<open>2\<close>, \<^verbatim>\<open>}\<close> the six calls return
  what they should and the last \<^verbatim>\<open>More\<close> leaves the Reader without any error:
  \<open>popDelim\<close> builds the error and drops it. When the tokenizer itself refuses the
  brace, the Reader's error is the tokenizer's syntax error, which names no expected
  delimiter.
\<close>

theorem popDelim_mismatch_not_reported:
  "(case read_two_ints (NewReader tokens_mismatch) of
      Inl p \<Rightarrow> False
    | Inr (r, c) \<Rightarrow> r = (True, True, 1, True, 2, False) \<and> Reader_Err c = None) \<and>
   (case read_two_ints (NewReader tokens_mismatch_refused) of
      Inl p \<Rightarrow> False
    | Inr (r, c) \<Rightarrow>
        r = (True, True, 1, True, 2, False) \<and>
        Reader_Err c = Some (SyntaxError (B ''invalid character } after array element'') 4))"
  by (simp add: read_two_ints_def NewReader_def tokens_mismatch_def tokens_mismatch_refused_def
      ArrayStart_def pushDelim_def next_def Decoder_Token_def Decoder_More_def More_def
      popDelim_def Reader_Int_def Reader_Err_def Reader_setError_def Let_def f64_one f64_two)

text \<open>
  C8. The claim is that \<^verbatim>\<open>Reset\<close> clears the first error of both components. The
  Builder's does (\<open>Reset_fresh\<close>). The Reader's does not: a Reader that failed on the
  document \<^verbatim>\<open>1\<close> and is reset to the document \<^verbatim>\<open>true\<close> still reports the old error,
  before and after it has read the new document, where a new Reader reports none.
\<close>

theorem Reader_Reset_keeps_error:
  "Reader_Err reader_failed = Some (Errorf (B ''expected boolean but got float64 at offset 1'')) \<and>
   Reader_Err (Reader_Reset reader_failed tokens_true) =
     Some (Errorf (B ''expected boolean but got float64 at offset 1'')) \<and>
   fst (Reader_Bool (Reader_Reset reader_failed tokens_true)) = True \<and>
   Reader_Err (snd (Reader_Bool (Reader_Reset reader_failed tokens_true))) =
     Some (Errorf (B ''expected boolean but got float64 at offset 1'')) \<and>
   Reader_Err (NewReader tokens_true) = None \<and>
   fst (Reader_Bool (NewReader tokens_true)) = True \<and>
   Reader_Err (snd (Reader_Bool (NewReader tokens_true))) = None"
  by (simp add: reader_failed_def Reader_Reset_def Reader_Bool_def NewReader_def tokens_one_def
      tokens_true_def next_def Decoder_Token_def Reader_Err_def setErrorExpected_def
      Reader_setError_def errExpected_def typeName_def InputOffset_def decimal.simps B_def)

text \<open>
  C9, as stated, fails: \<^verbatim>\<open>Key\<close> called when no further element is pending sets no
  error. Inside the empty object \<^verbatim>\<open>{}\<close> it pulls nothing, returns the empty string and
  leaves the Reader as it was, without an error.
\<close>

theorem Reader_Key_silent_at_end:
  "\<not> Decoder_More (rd reader_in_empty_object) \<and>
   Reader_Key reader_in_empty_object = ([], reader_in_empty_object) \<and>
   Reader_Err reader_in_empty_object = None \<and>
   Reader_Err (snd (Reader_Key reader_in_empty_object)) = None"
  by (simp add: reader_in_empty_object_def ObjectStart_def pushDelim_def NewReader_def
      tokens_empty_object_def next_def Decoder_Token_def Decoder_More_def Reader_Key_def
      Reader_Err_def)

text \<open>
  C9, amended. When another element is pending, \<^verbatim>\<open>Key\<close> pulls exactly one token; it
  returns the token when it is a string, leaving the error as it was, and otherwise
  returns the empty string with an error set. When no element is pending it pulls no
  token, returns the empty string and changes nothing.
\<close>

theorem Reader_Key_cases:
  "(Decoder_More (rd c) \<longrightarrow>
      (case next c of
         (TString s, c1) \<Rightarrow> Reader_Key c = (s, c1) \<and> rerr c1 = rerr c
       | (t, c1) \<Rightarrow> fst (Reader_Key c) = [] \<and> rerr (snd (Reader_Key c)) \<noteq> None) \<and>
      pending (rd (snd (Reader_Key c))) = tl (pending (rd c))) \<and>
   (\<not> Decoder_More (rd c) \<longrightarrow> Reader_Key c = ([], c))"
proof (cases "Decoder_More (rd c)")
  case False
  then show ?thesis by (simp add: Reader_Key_def)
next
  case True
  obtain t c1 where n: "next c = (t, c1)" by (cases "next c")
  have p: "pending (rd c1) = tl (pending (rd c))"
    using next_pending [of c] n by simp
  show ?thesis
  proof (cases t)
    case (TString s)
    have "rerr c1 = rerr c"
      using n TString
      by (auto simp: next_def Decoder_Token_def Let_def split: list.splits sum.splits)
    with True n TString p show ?thesis by (simp add: Reader_Key_def)
  qed (use True n p in \<open>simp_all add: Reader_Key_def setErrorExpected_sets setErrorExpected_rd\<close>)
qed

theorem Reader_Key_cases_witness:
  "Decoder_More (rd (NewReader tokens_member)) \<and>
   Reader_Key (NewReader tokens_member) = (B ''a'', snd (next (NewReader tokens_member))) \<and>
   \<not> Decoder_More (rd reader_in_empty_object) \<and>
   Reader_Key reader_in_empty_object = ([], reader_in_empty_object)"
  using Reader_Key_cases [of "NewReader tokens_member"] Reader_Key_cases [of reader_in_empty_object]
  by (simp add: NewReader_def tokens_member_def Decoder_More_def next_def Decoder_Token_def
      reader_in_empty_object_def ObjectStart_def pushDelim_def tokens_empty_object_def)

text \<open>
  C7. Calling \<^verbatim>\<open>Float\<close> with a NaN or an infinity, at the bit size 32 or 64, returns
  normally. The error is then set: when none was set before it is "unsupported float64
  value" followed by the name of the value (\<^verbatim>\<open>NaN\<close>, \<^verbatim>\<open>+Inf\<close> or \<^verbatim>\<open>-Inf\<close>), and an
  earlier error is kept. The state, the nesting depth, the indent and the key
  terminator are those left by the emission of a valid value (\<^verbatim>\<open>Null\<close>): the state is
  \<open>builderValue\<close> and the depth is unchanged, so the next chunk gets its comma and its
  indentation as after any value. The bytes written are the name of the value.
\<close>

theorem Float_not_finite:
  assumes "IsNaN f \<or> IsInf f 0" and "bits = 32 \<or> bits = 64"
  shows "\<exists>e1. Float digits e f bits = Inr e1 \<and>
           Err e1 = (if Err e = None
                     then Some (Errorf (B ''unsupported float64 value '' @ nonfinite_name f))
                     else Err e) \<and>
           state e1 = builderValue \<and> nestdepth e1 = nestdepth e \<and>
           state e1 = state (Null e) \<and> nestdepth e1 = nestdepth (Null e) \<and>
           Indent e1 = Indent (Null e) \<and> KeyTerm e1 = KeyTerm (Null e) \<and>
           Buffer e1 = Buffer (startChunk e builderValue) @ nonfinite_name f"
proof -
  have x: "f64_exp f = 0x7FF" using assms(1) by (rule not_finite_exp)
  note g = genericFtoa_not_finite [OF x assms(2)]
  show ?thesis
    using assms(1)
    by (auto simp add: Float_def Let_def FormatFloat_def AppendFloat_def g setError_def
        Float_cleanup_not_finite Null_fields)
qed

theorem Float_not_finite_witness:
  "(IsNaN f64_NaN \<or> IsInf f64_NaN 0) \<and> ((64 :: int) = 32 \<or> (64 :: int) = 64) \<and>
   (\<exists>e1. Float no_digits (StartArray newBuilder) f64_NaN 64 = Inr e1 \<and>
      Err e1 = Some (Errorf (B ''unsupported float64 value NaN'')) \<and>
      state e1 = builderValue \<and> nestdepth e1 = 1 \<and> Buffer e1 = B ''[NaN'')"
proof -
  have n: "IsNaN f64_NaN \<or> IsInf f64_NaN 0" using IsNaN_f64_NaN by simp
  have b: "(64 :: int) = 32 \<or> (64 :: int) = 64" by simp
  have name: "nonfinite_name f64_NaN = B ''NaN''"
    using IsNaN_f64_NaN by (simp add: nonfinite_name_def IsNaN_iff)
  have start: "Err (StartArray newBuilder) = None" "nestdepth (StartArray newBuilder) = 1"
    "Buffer (startChunk (StartArray newBuilder) builderValue) = B ''[''"
    by (simp_all add: StartArray_def Start_def newBuilder_def startChunk_def B_def)
  from Float_not_finite [OF n b, of no_digits "StartArray newBuilder"]
  obtain e1 where "Float no_digits (StartArray newBuilder) f64_NaN 64 = Inr e1"
    and "Err e1 = Some (Errorf (B ''unsupported float64 value '' @ B ''NaN''))"
    and "state e1 = builderValue" and "nestdepth e1 = 1" and "Buffer e1 = B ''['' @ B ''NaN''"
    unfolding name start by auto
  then have "\<exists>e1. Float no_digits (StartArray newBuilder) f64_NaN 64 = Inr e1 \<and>
      Err e1 = Some (Errorf (B ''unsupported float64 value NaN'')) \<and>
      state e1 = builderValue \<and> nestdepth e1 = 1 \<and> Buffer e1 = B ''[NaN''"
    by (simp add: B_def)
  with n b show ?thesis by blast
qed

text \<open>
  C6. \<^verbatim>\<open>Float\<close> at the bit size 64 chooses the exponential format \<^verbatim>\<open>e\<close> for a finite
  value exactly when the value is not zero and its absolute value is below the
  \<^verbatim>\<open>float64\<close> constant \<open>1e-6\<close> or at least \<open>10 ^ 21\<close>; at the bit size 32 the same test
  is made on the value converted to \<^verbatim>\<open>float32\<close>, against the \<^verbatim>\<open>float32\<close> constants. The
  constants are the numbers of their type nearest to \<open>10 ^ -6\<close> and \<open>10 ^ 21\<close>. What is
  written is the digits of the standard library in the format chosen, after the
  clean-up of the exponent in the format \<^verbatim>\<open>e\<close>: an exponent \<^verbatim>\<open>e-0d\<close> becomes \<^verbatim>\<open>e-d\<close>, one
  of two digits that does not start with 0 (\<^verbatim>\<open>e-10\<close>) and a positive one (\<^verbatim>\<open>e+21\<close>) are
  left as they are. The \<^verbatim>\<open>float64\<close> \<open>1e21\<close> gets the format \<^verbatim>\<open>e\<close>, \<open>9.999e20\<close> the format
  \<^verbatim>\<open>f\<close>, and \<open>1.5e-7\<close> the format \<^verbatim>\<open>e\<close>.
\<close>

theorem Float_notation:
  "(f64_finite f \<longrightarrow>
      (Float_fmt f 64 = 0x65 \<longleftrightarrow>
         f64_val f \<noteq> 0 \<and> (\<bar>f64_val f\<bar> < f64_val f64_1e_6 \<or> \<bar>f64_val f\<bar> \<ge> 10 ^ 21))) \<and>
   (f64_finite f \<and> f32_finite (f64_to_f32 (Abs f)) \<longrightarrow>
      (Float_fmt f 32 = 0x65 \<longleftrightarrow>
         f64_val f \<noteq> 0 \<and>
         (f32_val (f64_to_f32 (Abs f)) < f32_val f32_1e_6 \<or>
          f32_val (f64_to_f32 (Abs f)) \<ge> f32_val f32_1e21))) \<and>
   (Float_fmt f bits = 0x65 \<or> Float_fmt f bits = 0x66) \<and>
   (bits = 64 \<and> f64_finite f \<or> bits = 32 \<and> f32_finite (f64_to_f32 f) \<longrightarrow>
      Float digits e f bits =
        Inr (let b = (if Float_fmt f bits = 0x65 then Float_cleanup (digits f 0x65 bits)
                      else digits f 0x66 bits)
             in Write ((startChunk e builderValue)\<lparr>scratch := b\<rparr>) b)) \<and>
   \<bar>f64_val f64_1e_6 - 1 / 10 ^ 6\<bar> \<le> 1 / 2 ^ 73 \<and> f64_val f64_1e21 = 10 ^ 21 \<and>
   \<bar>f32_val f32_1e_6 - 1 / 10 ^ 6\<bar> \<le> 1 / 2 ^ 44 \<and> \<bar>f32_val f32_1e21 - 10 ^ 21\<bar> \<le> 2 ^ 45 \<and>
   Float_cleanup (d @ B ''e-0'' @ [c]) = d @ B ''e-'' @ [c] \<and>
   (c1 \<noteq> 0x30 \<longrightarrow> Float_cleanup (d @ B ''e-'' @ [c1, c2]) = d @ B ''e-'' @ [c1, c2]) \<and>
   Float_cleanup (d @ B ''e+'' @ [c1, c2]) = d @ B ''e+'' @ [c1, c2] \<and>
   Float_fmt f64_1e21 64 = 0x65 \<and>
   Float_fmt f64_9999e17 64 = 0x66 \<and> \<bar>f64_val f64_9999e17 - 9999 * 10 ^ 17\<bar> \<le> 2 ^ 16 \<and>
   Float_fmt f64_15e_8 64 = 0x65 \<and> \<bar>f64_val f64_15e_8 - 15 / 10 ^ 8\<bar> \<le> 1 / 2 ^ 76"
  using Float_fmt_64 [of f] Float_fmt_32 [of f] Float_fmt_values [of f bits]
    Float_finite [of bits f digits e] f64_val_1e_6 f64_val_1e21 f32_val_1e_6 f32_val_1e21
    Float_cleanup_strip [of d c] Float_cleanup_keep [of c1 d c2] Float_cleanup_plus [of d c1 c2]
    Float_fmt_examples f64_val_9999e17 f64_val_15e_8
  by blast

theorem Float_notation_witness:
  "f64_finite f64_15e_8 \<and> (64 :: int) = 64 \<and> Float_fmt f64_15e_8 64 = 0x65 \<and>
   f64_val f64_15e_8 \<noteq> 0 \<and> \<bar>f64_val f64_15e_8\<bar> < f64_val f64_1e_6 \<and>
   digits_15e_8 f64_15e_8 0x65 64 = B ''1.5e-07'' \<and>
   (case Float digits_15e_8 newBuilder f64_15e_8 64 of
      Inl p \<Rightarrow> False
    | Inr e1 \<Rightarrow> Buffer e1 = B ''1.5e-7'' \<and> Err e1 = None) \<and>
   Float_cleanup (B ''1e-10'') = B ''1e-10''"
proof -
  have fin: "f64_finite f64_15e_8" by (simp add: f64_finite_def example_fields)
  note t = Float_notation [of f64_15e_8 64 digits_15e_8 newBuilder "B ''1''" "0x37" "0x31" "0x30"]
  have fmt: "Float_fmt f64_15e_8 64 = 0x65" using t by blast
  then have v: "f64_val f64_15e_8 \<noteq> 0 \<and>
      (\<bar>f64_val f64_15e_8\<bar> < f64_val f64_1e_6 \<or> \<bar>f64_val f64_15e_8\<bar> \<ge> 10 ^ 21)"
    using t fin by blast
  define c :: real where "c = 15 / 10 ^ 8"
  have c: "0 \<le> c" "c \<le> 1" by (simp_all add: c_def)
  have "(1 :: real) / 2 ^ 76 \<le> 1" by simp
  with f64_val_15e_8 have "\<bar>f64_val f64_15e_8 - c\<bar> \<le> 1"
    unfolding c_def by (rule order_trans)
  with c have "\<bar>f64_val f64_15e_8\<bar> \<le> 2" by arith
  moreover have "(2 :: real) < 10 ^ 21" by simp
  ultimately have "\<bar>f64_val f64_15e_8\<bar> < 10 ^ 21" by (rule le_less_trans)
  with v have v': "f64_val f64_15e_8 \<noteq> 0 \<and> \<bar>f64_val f64_15e_8\<bar> < f64_val f64_1e_6" by simp
  have d: "digits_15e_8 f64_15e_8 0x65 64 = B ''1.5e-07''" by (simp add: digits_15e_8_def)
  have "Float digits_15e_8 newBuilder f64_15e_8 64 =
      Inr (let b = Float_cleanup (B ''1.5e-07'')
           in Write ((startChunk newBuilder builderValue)\<lparr>scratch := b\<rparr>) b)"
    using t fin fmt d by simp
  moreover have "Float_cleanup (B ''1.5e-07'') = B ''1.5e-7''"
    by (simp add: Float_cleanup_def B_def)
  ultimately have f: "(case Float digits_15e_8 newBuilder f64_15e_8 64 of
      Inl p \<Rightarrow> False
    | Inr e1 \<Rightarrow> Buffer e1 = B ''1.5e-7'' \<and> Err e1 = None)"
    by (simp add: Let_def startChunk_newBuilder) (simp add: newBuilder_def)
  have k: "Float_cleanup (B ''1e-10'') = B ''1e-10''"
    by (simp add: Float_cleanup_def B_def)
  from fin fmt v' d f k show ?thesis by simp
qed

end
